theory Spec2Isabelle
  imports Complex_Main "HOL-Library.Word" "HOL-Library.Multiset"
begin

section \<open>Wire data (common.h)\<close>

text \<open>
  The enum \<open>RequestType\<close>, in declaration order: the ordinal of a constructor is its
  position in \<open>RequestTypes\<close>.
\<close>

datatype RequestType =
  QUIT | DEPOSIT | WITHDRAW | BALANCE | UPLOAD_FILE | DOWNLOAD_FILE | LOGIN | LOGOUT
  | EARN_INTEREST

definition RequestTypes :: "RequestType list" where
  "RequestTypes =
     [QUIT, DEPOSIT, WITHDRAW, BALANCE, UPLOAD_FILE, DOWNLOAD_FILE, LOGIN, LOGOUT,
      EARN_INTEREST]"

text \<open>\<open>static_cast<int>(t)\<close> on a \<open>RequestType\<close>.\<close>

fun ordinal :: "RequestType \<Rightarrow> int" where
  "ordinal QUIT = 0"
| "ordinal DEPOSIT = 1"
| "ordinal WITHDRAW = 2"
| "ordinal BALANCE = 3"
| "ordinal UPLOAD_FILE = 4"
| "ordinal DOWNLOAD_FILE = 5"
| "ordinal LOGIN = 6"
| "ordinal LOGOUT = 7"
| "ordinal EARN_INTEREST = 8"

text \<open>
  The structs \<open>Request\<close> and \<open>Response\<close>. A C++ \<open>int\<close> is a 32-bit word, read as
  two's complement by \<open>sint\<close>. The
  type \<open>'d\<close> stands for C++ \<open>double\<close>: the development never fixes its arithmetic, it
  only uses the operations the source applies to it (\<open>0\<close>, \<open>+\<close>, \<open>-\<close>, \<open>*\<close>, the
  comparisons), so every statement below holds for whatever these operations compute.
\<close>

type_synonym int32 = "32 word"

record 'd Request =
  type :: RequestType
  user_id :: int32
  amount :: 'd
  filename :: string
  data :: string

record 'd Response =
  success :: bool
  balance :: 'd
  resp_data :: string
  message :: string

text \<open>
  The constructor \<open>Request(t)\<close> with every defaulted argument left out:
  \<open>uid = 0\<close>, \<open>amt = 0.0\<close>, \<open>fname = ""\<close>, \<open>d = ""\<close>.
\<close>

definition Request_default :: "RequestType \<Rightarrow> ('d::zero) Request" where
  "Request_default t = \<lparr>type = t, user_id = 0, amount = 0, filename = [], data = []\<rparr>"

datatype error = InvalidArgument | OutOfRange | RuntimeError string

section \<open>Decimal text of integers\<close>

text \<open>\<open>isspace\<close> and \<open>isdigit\<close> of the C locale.\<close>

definition isspace :: "char \<Rightarrow> bool" where
  "isspace c = (c = CHR '' '' \<or> (9::nat) \<le> of_char c \<and> (of_char c :: nat) \<le> 13)"

definition isdigit :: "char \<Rightarrow> bool" where
  "isdigit c = ((48::nat) \<le> of_char c \<and> (of_char c :: nat) \<le> 57)"

definition decimal :: "string \<Rightarrow> int" where
  "decimal ds = foldl (\<lambda>v c. 10 * v + (of_char c - 48)) 0 ds"

text \<open>
  \<open>std::stoi(str)\<close>: \<open>strtol\<close> in base 10 skips leading white space, reads an optional
  sign and then the longest run of digits, ignoring whatever follows. With no digit
  there \<open>std::invalid_argument\<close> is thrown; a value that does not fit an \<open>int\<close> throws
  \<open>std::out_of_range\<close>.
\<close>

definition stoi :: "string \<Rightarrow> error + int32" where
  "stoi str =
     (let s1 = dropWhile isspace str;
          neg = (s1 \<noteq> [] \<and> hd s1 = CHR ''-'');
          s2 = (if s1 \<noteq> [] \<and> (hd s1 = CHR ''-'' \<or> hd s1 = CHR ''+'') then tl s1 else s1);
          ds = takeWhile isdigit s2
      in if ds = [] then Inl InvalidArgument
         else let v = (if neg then - decimal ds else decimal ds)
              in if v < - (2 ^ 31) \<or> 2 ^ 31 - 1 < v then Inl OutOfRange
                 else Inr (word_of_int v))"

text \<open>\<open>operator<<\<close> of an output stream on an \<open>int\<close>: decimal digits, \<open>-\<close> first when negative.\<close>

function string_of_nat :: "nat \<Rightarrow> string" where
  "string_of_nat n =
     (if n < 10 then [char_of (48 + n)]
      else string_of_nat (n div 10) @ [char_of (48 + n mod 10)])"
  by pat_completeness auto
termination
  by (relation "measure (\<lambda>n. n)") auto

declare string_of_nat.simps [simp del]

definition print_int :: "int \<Rightarrow> string" where
  "print_int i = (if i < 0 then CHR ''-'' # string_of_nat (nat (- i)) else string_of_nat (nat i))"

section \<open>Request bodies (NetworkRequestChannel::send_request, Request::parseRequest)\<close>

text \<open>
  The body \<open>send_request\<close> builds in its string stream:
  \<open>TYPE|USER_ID|AMOUNT|FILENAME|DATA\<close>. Printing a \<open>double\<close> is the stream's business
  and is passed in as \<open>put_double\<close>.
\<close>

definition request_str :: "('d \<Rightarrow> string) \<Rightarrow> 'd Request \<Rightarrow> string" where
  "request_str put_double req =
     print_int (ordinal (type req)) @ ''|'' @ print_int (sint (user_id req)) @ ''|''
     @ put_double (amount req) @ ''|'' @ filename req @ ''|'' @ data req"

text \<open>\<open>str.find(c)\<close>: the position of the first \<open>c\<close>, \<open>npos\<close> (here \<open>None\<close>) without one.\<close>

definition str_find :: "string \<Rightarrow> char \<Rightarrow> nat option" where
  "str_find str c =
     (if c \<in> set str then Some (length (takeWhile (\<lambda>x. x \<noteq> c) str)) else None)"

lemma takeWhile_stops: "c \<in> set str \<Longrightarrow> length (takeWhile (\<lambda>x. x \<noteq> c) str) < length str"
  by (induction str) auto

lemma str_find_less: "str_find str c = Some pos \<Longrightarrow> pos < length str"
  unfolding str_find_def
  by (auto split: if_splits intro: takeWhile_stops)

text \<open>
  The splitting loop of \<open>parseRequest\<close>: while a delimiter is found, the text before it
  is pushed to \<open>parts\<close> and erased together with the delimiter; what remains is the
  last part.
\<close>

function split_loop :: "string \<Rightarrow> string list \<Rightarrow> string list" where
  "split_loop str parts =
     (case str_find str CHR ''|'' of
        None \<Rightarrow> parts @ [str]
      | Some pos \<Rightarrow> split_loop (drop (pos + 1) str) (parts @ [take pos str]))"
  by pat_completeness auto
termination
  by (relation "measure (\<lambda>(str, parts). length str)") (auto dest: str_find_less)

declare split_loop.simps [simp del]

text \<open>
  \<open>Request::parseRequest\<close>. \<open>std::stod\<close> is passed in as \<open>stod\<close>: it maps the amount's
  text to a \<open>double\<close> or to the exception it throws. An exception of \<open>stoi\<close> or \<open>stod\<close>
  leaves \<open>parseRequest\<close>, which catches nothing.
\<close>

definition parseRequest :: "(string \<Rightarrow> error + 'd) \<Rightarrow> string \<Rightarrow> error + ('d::zero) Request" where
  "parseRequest stod buffer =
     (let parts = split_loop buffer [] in
      if length parts < 5 then Inr (Request_default QUIT)
      else (case stoi (parts ! 0) of
        Inl e \<Rightarrow> Inl e
      | Inr ty \<Rightarrow>
          if sint ty < 0 \<or> sint ty > 8 then Inr (Request_default QUIT)
          else (case stoi (parts ! 1) of
            Inl e \<Rightarrow> Inl e
          | Inr uid \<Rightarrow>
              (case stod (parts ! 2) of
                 Inl e \<Rightarrow> Inl e
               | Inr amt \<Rightarrow>
                   Inr \<lparr>type = RequestTypes ! nat (sint ty), user_id = uid, amount = amt,
                        filename = parts ! 3, data = parts ! 4\<rparr>))))"

section \<open>Signal state (signals.h)\<close>

text \<open>
  The globals of the namespace \<open>SignalHandling\<close>, together with what the kernel keeps
  for the process: the seconds left on the alarm (\<open>0\<close>: no alarm is armed), whether
  \<open>SIGINT\<close> is blocked, and the lines written to \<open>signals.log\<close> (without their time
  stamps). \<open>sigint\<close> tells, for each coming look at \<open>shutdown_requested\<close>, whether a
  first \<open>SIGINT\<close> was delivered since the look before; a second \<open>SIGINT\<close>, which
  ends the process in the handler, is not followed any further.
\<close>

record ServerProcess =
  pid :: int32
  name :: string
  active :: bool

record SignalHandling =
  shutdown_requested :: bool
  timeout_occurred :: bool
  child_exited :: int32
  server_processes :: "ServerProcess list"
  pending_alarm :: nat
  sigint_blocked :: bool
  sigint :: "bool list"
  signals_log :: "string list"

definition log_signal_event :: "string \<Rightarrow> 'a SignalHandling_scheme \<Rightarrow> 'a SignalHandling_scheme" where
  "log_signal_event msg s = s\<lparr>signals_log := signals_log s @ [msg]\<rparr>"

text \<open>\<open>alarm(seconds)\<close>: the argument is an \<open>unsigned int\<close>.\<close>

definition alarm :: "32 word \<Rightarrow> 'a SignalHandling_scheme \<Rightarrow> 'a SignalHandling_scheme" where
  "alarm seconds s = s\<lparr>pending_alarm := unat seconds\<rparr>"

text \<open>
  \<open>execute_with_timeout\<close>. The operation is a closure: it maps the state it finds to
  the state it leaves and either returns a \<open>bool\<close> or throws. Nothing is caught here,
  so an exception of the operation leaves the function at once.
\<close>

definition execute_with_timeout ::
  "('a SignalHandling_scheme \<Rightarrow> (error + bool) \<times> 'a SignalHandling_scheme) \<Rightarrow> int32 \<Rightarrow>
   'a SignalHandling_scheme \<Rightarrow> (error + bool) \<times> 'a SignalHandling_scheme" where
  "execute_with_timeout operation timeout_seconds s =
     (let s1 = s\<lparr>timeout_occurred := False\<rparr>;
          s2 = alarm timeout_seconds s1
      in case operation s2 of
           (Inl e, s3) \<Rightarrow> (Inl e, s3)
         | (Inr result, s3) \<Rightarrow>
             (let s4 = alarm 0 s3
              in (Inr (result \<and> \<not> timeout_occurred s4), s4)))"

section \<open>Worker pool (thread_pool.h, thread_pool.cpp)\<close>

text \<open>
  The pool runs several threads, so it is modelled as a machine that one thread moves
  at a time. A task is a value of type \<open>'t\<close>; running it is \<open>exec t\<close> on the memory
  \<open>'m\<close> the tasks share. The members \<open>workers\<close>, \<open>tasks\<close>, \<open>queueMutex\<close>,
  \<open>stop\<close> and \<open>activeTasks\<close> are those of the class (\<open>queueMutex\<close> holds the
  thread that owns it: \<open>0\<close> for the thread that owns the pool, \<open>Suc i\<close> for worker
  \<open>i\<close>); \<open>owner\<close> is where the owning thread stands, \<open>completed\<close> lists the tasks
  that have run, in the order they finished.

  Where a worker stands in the loop of the constructor's lambda:
  \<^item> \<open>W_Wait\<close>: before taking \<open>queueMutex\<close>, or blocked inside \<open>condition.wait\<close>;
  \<^item> \<open>W_Locked\<close>: holding \<open>queueMutex\<close>, about to test the predicate of the wait;
  \<^item> \<open>W_Popped t\<close>: has moved \<open>t\<close> out of the queue and released the mutex;
  \<^item> \<open>W_Running t\<close>: has incremented \<open>activeTasks\<close>, about to call \<open>task()\<close>;
  \<^item> \<open>W_Ran\<close>: \<open>task()\<close> has returned;
  \<^item> \<open>W_Notify\<close>: has decremented \<open>activeTasks\<close>, about to call \<open>notify_all\<close>;
  \<^item> \<open>W_Exited\<close>: has returned from the lambda.
  A thread blocked in \<open>wait\<close> may wake at any time (the standard allows spurious
  wake-ups), so \<open>notify_one\<close> and \<open>notify_all\<close> change nothing in the model.
\<close>

datatype 't worker =
  W_Wait | W_Locked | W_Popped 't | W_Running 't | W_Ran | W_Notify | W_Exited

text \<open>
  Where the owning thread stands: calling \<open>enqueue\<close> for the tasks still to submit
  (\<open>O_Enqueue\<close>, and \<open>O_EnqLocked\<close> once it holds the mutex), then in the destructor:
  before taking the mutex or blocked in its wait (\<open>O_Destroy\<close>), holding the mutex and
  about to test the predicate (\<open>O_DLocked\<close>), past the wait and about to set \<open>stop\<close>
  (\<open>O_DStop\<close>), joining worker \<open>i\<close> (\<open>O_Join i\<close>), returned (\<open>O_Returned\<close>).
\<close>

datatype 't owner =
  O_Enqueue "'t list" | O_EnqLocked 't "'t list" | O_Destroy | O_DLocked | O_DStop
  | O_Join nat | O_Returned

record ('t, 'm) ThreadPool =
  workers :: "'t worker list"
  tasks :: "'t list"
  queueMutex :: "nat option"
  stop :: bool
  activeTasks :: int32
  owner :: "'t owner"
  memory :: 'm
  completed :: "'t list"

text \<open>
  \<open>ThreadPool(numThreads)\<close> by a thread that will submit the tasks \<open>ts\<close> and then
  destroy the pool. A worker that has not been started yet is a worker that has not
  moved yet.
\<close>

definition ThreadPool_new :: "nat \<Rightarrow> 't list \<Rightarrow> 'm \<Rightarrow> ('t, 'm) ThreadPool" where
  "ThreadPool_new numThreads ts mem =
     \<lparr>workers = replicate numThreads W_Wait, tasks = [], queueMutex = None, stop = False,
      activeTasks = 0, owner = O_Enqueue ts, memory = mem, completed = []\<rparr>"

text \<open>One move of worker \<open>i\<close>; a worker that cannot move stays where it is.\<close>

definition worker_step :: "('t \<Rightarrow> 'm \<Rightarrow> 'm) \<Rightarrow> nat \<Rightarrow> ('t, 'm) ThreadPool \<Rightarrow> ('t, 'm) ThreadPool" where
  "worker_step exec i p =
     (case workers p ! i of
        W_Wait \<Rightarrow>
          if queueMutex p = None
          then p\<lparr>queueMutex := Some (Suc i), workers := (workers p)[i := W_Locked]\<rparr>
          else p
      | W_Locked \<Rightarrow>
          if stop p \<or> tasks p \<noteq> [] then
            if stop p \<and> tasks p = []
            then p\<lparr>queueMutex := None, workers := (workers p)[i := W_Exited]\<rparr>
            else p\<lparr>tasks := tl (tasks p), queueMutex := None,
                   workers := (workers p)[i := W_Popped (hd (tasks p))]\<rparr>
          else p\<lparr>queueMutex := None, workers := (workers p)[i := W_Wait]\<rparr>
      | W_Popped t \<Rightarrow>
          p\<lparr>activeTasks := activeTasks p + 1, workers := (workers p)[i := W_Running t]\<rparr>
      | W_Running t \<Rightarrow>
          p\<lparr>memory := exec t (memory p), completed := completed p @ [t],
            workers := (workers p)[i := W_Ran]\<rparr>
      | W_Ran \<Rightarrow>
          p\<lparr>activeTasks := activeTasks p - 1, workers := (workers p)[i := W_Notify]\<rparr>
      | W_Notify \<Rightarrow> p\<lparr>workers := (workers p)[i := W_Wait]\<rparr>
      | W_Exited \<Rightarrow> p)"

text \<open>
  One move of the owning thread: \<open>enqueue\<close> locks, pushes and unlocks; the destructor
  waits under the mutex for \<open>tasks.empty() && activeTasks == 0\<close>, sets \<open>stop\<close>,
  unlocks and joins the workers in order.
\<close>

definition owner_step :: "('t, 'm) ThreadPool \<Rightarrow> ('t, 'm) ThreadPool" where
  "owner_step p =
     (case owner p of
        O_Enqueue [] \<Rightarrow> p\<lparr>owner := O_Destroy\<rparr>
      | O_Enqueue (t # ts) \<Rightarrow>
          if queueMutex p = None then p\<lparr>queueMutex := Some 0, owner := O_EnqLocked t ts\<rparr>
          else p
      | O_EnqLocked t ts \<Rightarrow>
          p\<lparr>tasks := tasks p @ [t], queueMutex := None, owner := O_Enqueue ts\<rparr>
      | O_Destroy \<Rightarrow>
          if queueMutex p = None then p\<lparr>queueMutex := Some 0, owner := O_DLocked\<rparr> else p
      | O_DLocked \<Rightarrow>
          if tasks p = [] \<and> activeTasks p = 0 then p\<lparr>owner := O_DStop\<rparr>
          else p\<lparr>queueMutex := None, owner := O_Destroy\<rparr>
      | O_DStop \<Rightarrow> p\<lparr>stop := True, queueMutex := None, owner := O_Join 0\<rparr>
      | O_Join i \<Rightarrow>
          if i < length (workers p) then
            if workers p ! i = W_Exited then p\<lparr>owner := O_Join (Suc i)\<rparr> else p
          else p\<lparr>owner := O_Returned\<rparr>
      | O_Returned \<Rightarrow> p)"

text \<open>
  A schedule names the thread that moves next (\<open>0\<close>: the owning thread, \<open>Suc i\<close>:
  worker \<open>i\<close>); \<open>run_pool\<close> follows it.
\<close>

definition step :: "('t \<Rightarrow> 'm \<Rightarrow> 'm) \<Rightarrow> nat \<Rightarrow> ('t, 'm) ThreadPool \<Rightarrow> ('t, 'm) ThreadPool" where
  "step exec tid p =
     (case tid of
        0 \<Rightarrow> owner_step p
      | Suc i \<Rightarrow> if i < length (workers p) then worker_step exec i p else p)"

fun run_pool :: "('t \<Rightarrow> 'm \<Rightarrow> 'm) \<Rightarrow> nat list \<Rightarrow> ('t, 'm) ThreadPool \<Rightarrow> ('t, 'm) ThreadPool" where
  "run_pool exec [] p = p"
| "run_pool exec (tid # schedule) p = run_pool exec schedule (step exec tid p)"

section \<open>Accounts and the finance server's requests (finance.cpp)\<close>

text \<open>
  The class \<open>Account\<close>. Its mutex is held for the whole of every access below and
  every access is one move of one thread, so it is not modelled.
\<close>

record 'd Account =
  acc_id :: int32
  acc_balance :: 'd
  acc_active :: bool

text \<open>The constructor \<open>Account()\<close>, which fills the array, and \<open>initialize\<close>.\<close>

definition Account_default :: "('d::zero) Account" where
  "Account_default = \<lparr>acc_id = - 1, acc_balance = 0, acc_active = False\<rparr>"

definition initialize :: "int32 \<Rightarrow> ('d::zero) Account \<Rightarrow> 'd Account" where
  "initialize i acc = acc\<lparr>acc_id := i, acc_balance := 0, acc_active := True\<rparr>"

text \<open>\<open>applyInterest\<close>; \<open>growth\<close> is the \<open>double\<close> that the literal \<open>1.01\<close> denotes.\<close>

definition applyInterest :: "'d \<Rightarrow> ('d::{zero,ord,times}) Account \<Rightarrow> 'd Account" where
  "applyInterest growth account =
     (if \<not> acc_active account then account
      else if 0 < acc_balance account
        then account\<lparr>acc_balance := acc_balance account * growth\<rparr>
        else account)"

text \<open>The constructor \<open>Response()\<close> with every argument defaulted.\<close>

definition Response_default :: "('d::zero) Response" where
  "Response_default = \<lparr>success = False, balance = 0, resp_data = [], message = []\<rparr>"

text \<open>The conversion of an \<open>int\<close> to \<open>size_t\<close> (64 bits) at \<open>ThreadPool pool(numThreads)\<close>.\<close>

definition size_t_of_int :: "int32 \<Rightarrow> nat" where
  "size_t_of_int n = nat (sint n mod 2 ^ 64)"

text \<open>
  One turn of the loop of \<open>handle_client\<close>, from the request \<open>receive_request\<close>
  returned to the response handed to \<open>send_response\<close>: the result is the response,
  the new value of \<open>running\<close> and the accounts. \<open>to_int\<close> is the conversion of a
  \<open>double\<close> to \<open>int\<close> at \<open>numThreads = r.amount\<close>. The pool of \<open>EARN_INTEREST\<close>
  runs under \<open>schedule\<close>; the result is \<open>None\<close> when the schedule ends before the
  pool's destructor has returned, since no response is built before that. Threads that
  cannot be started and sockets that fail are not modelled.
\<close>

definition handle_request ::
  "('d \<Rightarrow> int32) \<Rightarrow> 'd \<Rightarrow> nat list \<Rightarrow> int32 \<Rightarrow> int32 \<Rightarrow> 'd Request \<Rightarrow>
   ('d::{zero,plus,minus,times,ord}) Account list \<Rightarrow>
   ('d Response \<times> bool \<times> 'd Account list) option" where
  "handle_request to_int growth schedule max_accounts thread_count r accounts =
     (if type r = QUIT then
        Some (\<lparr>success = True, balance = 0, resp_data = [],
               message = ''Server acknowledged disconnect''\<rparr>, False, accounts)
      else
        let resp = Response_default\<lparr>success := True\<rparr> in
        if sint (user_id r) < 0 \<or> sint max_accounts \<le> sint (user_id r) then
          Some (resp\<lparr>success := False, message := ''Invalid account ID''\<rparr>, True, accounts)
        else
          let i = nat (sint (user_id r));
              accounts1 =
                (if \<not> acc_active (accounts ! i)
                 then accounts[i := initialize (user_id r) (accounts ! i)] else accounts);
              acc = accounts1 ! i
          in
          if type r = DEPOSIT then
            let acc1 = acc\<lparr>acc_balance := acc_balance acc + amount r\<rparr>
            in Some (resp\<lparr>balance := acc_balance acc1, message := ''Deposit successful''\<rparr>,
                     True, accounts1[i := acc1])
          else if type r = WITHDRAW then
            if amount r \<le> acc_balance acc then
              let acc1 = acc\<lparr>acc_balance := acc_balance acc - amount r\<rparr>
              in Some (resp\<lparr>balance := acc_balance acc1,
                             message := ''Withdrawal successful''\<rparr>,
                       True, accounts1[i := acc1])
            else
              Some (resp\<lparr>success := False, message := ''Insufficient funds''\<rparr>,
                    True, accounts1)
          else if type r = BALANCE then
            Some (resp\<lparr>balance := acc_balance acc, message := ''View balance successful''\<rparr>,
                  True, accounts1)
          else if type r = EARN_INTEREST then
            let numThreads = (if 0 < amount r then to_int (amount r) else thread_count);
                pool = run_pool (\<lambda>id accs. accs[id := applyInterest growth (accs ! id)])
                         schedule
                         (ThreadPool_new (size_t_of_int numThreads)
                            [0 ..< nat (sint max_accounts)] accounts1)
            in if owner pool = O_Returned
               then Some (resp\<lparr>message := ''Interest accrual successful''\<rparr>, True,
                          memory pool)
               else None
          else
            Some (resp\<lparr>success := False, message := ''Unknown RequestType''\<rparr>, True,
                  accounts1))"

section \<open>What the pool keeps true\<close>

text \<open>
  The tasks a worker holds outside the queue, the tasks the owning thread has still to
  submit, and the workers that stand between the increment and the decrement of
  \<open>activeTasks\<close>.
\<close>

fun held :: "'t worker \<Rightarrow> 't list" where
  "held (W_Popped t) = [t]"
| "held (W_Running t) = [t]"
| "held _ = []"

fun pending :: "'t owner \<Rightarrow> 't list" where
  "pending (O_Enqueue ts) = ts"
| "pending (O_EnqLocked t ts) = t # ts"
| "pending _ = []"

fun executing :: "'t worker \<Rightarrow> bool" where
  "executing (W_Running t) = True"
| "executing W_Ran = True"
| "executing _ = False"

definition unfinished :: "('t, 'm) ThreadPool \<Rightarrow> 't multiset" where
  "unfinished p =
     mset (pending (owner p)) + mset (tasks p) + (\<Sum>w\<leftarrow>workers p. mset (held w))"

definition past_wait :: "('t, 'm) ThreadPool \<Rightarrow> bool" where
  "past_wait p = (owner p = O_Returned \<or> (\<exists>j. owner p = O_Join j))"

definition ctrl_inv :: "('t, 'm) ThreadPool \<Rightarrow> bool" where
  "ctrl_inv p =
     ((stop p \<longrightarrow> tasks p = [] \<and> past_wait p) \<and>
      (past_wait p \<longrightarrow> stop p) \<and>
      (owner p = O_DStop \<longrightarrow> tasks p = []) \<and>
      (\<forall>j k. owner p = O_Join j \<and> k < j \<and> k < length (workers p) \<longrightarrow>
         workers p ! k = W_Exited) \<and>
      (owner p = O_Returned \<longrightarrow> (\<forall>k < length (workers p). workers p ! k = W_Exited)) \<and>
      (\<forall>k < length (workers p). workers p ! k = W_Exited \<longrightarrow> stop p))"

definition mem_inv :: "('t \<Rightarrow> 'm \<Rightarrow> 'm) \<Rightarrow> 'm \<Rightarrow> ('t, 'm) ThreadPool \<Rightarrow> bool" where
  "mem_inv exec mem p = (memory p = foldl (\<lambda>m t. exec t m) mem (completed p))"

definition count_inv :: "('t, 'm) ThreadPool \<Rightarrow> bool" where
  "count_inv p = (sint (activeTasks p) = int (length (filter executing (workers p))))"

section \<open>The interactive client (client.cpp)\<close>

subsection \<open>What the client reads, prints and sends\<close>

text \<open>
  \<open>cin\<close> is modelled by the outcomes of its extractions, in order: the \<open>n\<close>-th
  extraction, whatever its type, comes out as the \<open>n\<close>-th outcome tells for that
  type. An extraction of an \<open>int\<close> either reads a value or fails, and a failed one
  may still store a value in the variable. For a \<open>double\<close> and a \<open>char\<close> the
  outcome gives the value the variable holds afterwards (for a variable that was not
  initialised and an extraction that stored nothing, whatever was there);
  \<open>clear_input\<close> then resets the stream and drops the rest of the line, which the
  next outcome already accounts for.
\<close>

datatype int_read = Read int32 | Failed "int32 option"

record 'd cin_outcome =
  as_int :: int_read
  as_double :: 'd
  as_char :: char
  as_line :: string

text \<open>The part of a \<open>NetworkRequestChannel\<close> object that a connected client uses.\<close>

record NetworkRequestChannel =
  sockfd :: int32
  peer_ip :: string
  peer_port :: int32

text \<open>
  How one call of \<open>send_request\<close> goes on the network: one of its four socket calls
  falls short, or the whole body of a response arrives.
\<close>

datatype exchange =
  SendLengthFailed | SendBodyFailed | RecvLengthFailed | RecvBodyFailed | Reply string

text \<open>
  The state of the client process: the signal state, the terminal (every output
  statement appends its text to \<open>cout\<close> or \<open>cerr\<close>, line ends left out), the files
  it can read (\<open>files\<close>) and create (\<open>creatable\<close>), the network (\<open>net\<close> tells
  how the \<open>n\<close>-th call of \<open>send_request\<close> goes, \<open>wire\<close> lists the socket and
  body of every request handed to the network), and the locals of \<open>main\<close> that its
  closures capture by reference.
\<close>

record 'd client = SignalHandling +
  stdin :: "nat \<Rightarrow> 'd cin_outcome"
  stdin_pos :: nat
  cout :: "string list"
  cerr :: "string list"
  files :: "string \<Rightarrow> string option"
  creatable :: "string \<Rightarrow> bool"
  net :: "nat \<Rightarrow> exchange"
  net_pos :: nat
  wire :: "(int32 \<times> string) list"
  finance_channel :: "NetworkRequestChannel option"
  logging_channel :: "NetworkRequestChannel option"
  file_channel :: "NetworkRequestChannel option"
  current_user :: int32
  running :: bool

text \<open>
  The conversions of \<open>double\<close> the client needs: printing on a stream
  (\<open>write_double\<close>), \<open>std::stod\<close> (\<open>read_double\<close>) and the conversion from
  \<open>int\<close> (\<open>from_int\<close>).
\<close>

record 'd double_io =
  write_double :: "'d \<Rightarrow> string"
  read_double :: "string \<Rightarrow> error + 'd"
  from_int :: "int32 \<Rightarrow> 'd"

text \<open>
  The handler of \<open>SIGINT\<close> on its first delivery, and a look at \<open>shutdown_requested\<close>:
  a \<open>SIGINT\<close> that arrived since the look before is handled first, unless the signal
  is blocked, in which case it stays pending.
\<close>

definition sigint_handler :: "'a SignalHandling_scheme \<Rightarrow> 'a SignalHandling_scheme" where
  "sigint_handler s =
     (if \<not> shutdown_requested s
      then log_signal_event ''SIGINT received - initiating graceful shutdown''
             (s\<lparr>shutdown_requested := True\<rparr>)
      else s)"

definition observe_shutdown :: "'a SignalHandling_scheme \<Rightarrow> bool \<times> 'a SignalHandling_scheme" where
  "observe_shutdown s =
     (case sigint s of
        [] \<Rightarrow> (shutdown_requested s, s)
      | arrived # rest \<Rightarrow>
          if sigint_blocked s then (shutdown_requested s, s)
          else let s1 = (if arrived then sigint_handler s else s)\<lparr>sigint := rest\<rparr>
               in (shutdown_requested s1, s1))"

definition block_signals :: "'a SignalHandling_scheme \<Rightarrow> 'a SignalHandling_scheme" where
  "block_signals s =
     log_signal_event ''Signals blocked for critical section'' (s\<lparr>sigint_blocked := True\<rparr>)"

definition unblock_signals :: "'a SignalHandling_scheme \<Rightarrow> 'a SignalHandling_scheme" where
  "unblock_signals s = log_signal_event ''Signals unblocked'' (s\<lparr>sigint_blocked := False\<rparr>)"

definition say :: "string \<Rightarrow> 'd client \<Rightarrow> 'd client" where
  "say text s = s\<lparr>cout := cout s @ [text]\<rparr>"

definition next_input :: "'d client \<Rightarrow> 'd cin_outcome \<times> 'd client" where
  "next_input s = (stdin s (stdin_pos s), s\<lparr>stdin_pos := Suc (stdin_pos s)\<rparr>)"

definition tolower :: "char \<Rightarrow> char" where
  "tolower c =
     (if (65::nat) \<le> of_char c \<and> (of_char c :: nat) \<le> 90 then char_of (of_char c + (32::nat))
      else c)"

text \<open>\<open>e.what()\<close>: the message of a \<open>runtime_error\<close>; \<open>std::stod\<close> names itself.\<close>

fun what :: "error \<Rightarrow> string" where
  "what (RuntimeError msg) = msg"
| "what InvalidArgument = ''stod''"
| "what OutOfRange = ''stod''"

text \<open>
  \<open>NetworkRequestChannel::send_request\<close>: the body is built and handed to the
  socket; a socket call that falls short throws; the response is cut at the delimiters
  by four \<open>getline\<close> calls, a field that is not there being empty.
\<close>

definition response_field :: "string list \<Rightarrow> nat \<Rightarrow> string" where
  "response_field parts k = (if k < length parts then parts ! k else [])"

definition send_request ::
  "'d double_io \<Rightarrow> NetworkRequestChannel \<Rightarrow> 'd Request \<Rightarrow> 'd client \<Rightarrow>
   (error + 'd Response) \<times> 'd client" where
  "send_request io ch req s =
     (let s1 = s\<lparr>wire := wire s @ [(sockfd ch, request_str (write_double io) req)],
                 net_pos := Suc (net_pos s)\<rparr>
      in case net s (net_pos s) of
           SendLengthFailed \<Rightarrow> (Inl (RuntimeError ''send() request length failed!''), s1)
         | SendBodyFailed \<Rightarrow> (Inl (RuntimeError ''send() request body failed!''), s1)
         | RecvLengthFailed \<Rightarrow> (Inl (RuntimeError ''recv() response length failed!''), s1)
         | RecvBodyFailed \<Rightarrow> (Inl (RuntimeError ''recv() response body failed!''), s1)
         | Reply resp \<Rightarrow>
             (let parts = split_loop resp [] in
              case read_double io (response_field parts 1) of
                Inl e \<Rightarrow> (Inl e, s1)
              | Inr b \<Rightarrow>
                  (Inr \<lparr>success = (response_field parts 0 = ''1''), balance = b,
                        resp_data = response_field parts 2,
                        message = response_field parts 3\<rparr>, s1)))"

subsection \<open>The retry loop\<close>

text \<open>
  \<open>retry_operation\<close> returns nothing, so what it did is recorded as it goes: every
  look at \<open>shutdown_requested\<close> with what it saw, every call of the operation with
  what it returned or threw, every text printed and every answer read.
\<close>

datatype event = Observed bool | Invoked "error + bool" | Said string | Asked char

definition after ::
  "event list \<Rightarrow> event list \<times> error option \<times> 'c \<Rightarrow> event list \<times> error option \<times> 'c" where
  "after evs res = (case res of (evs', exc, s) \<Rightarrow> (evs @ evs', exc, s))"

definition retrying :: "string \<Rightarrow> int32 \<Rightarrow> int32 \<Rightarrow> string" where
  "retrying operation_name retries max_retries =
     ''Retrying '' @ operation_name @ '' (attempt '' @ print_int (sint (retries + 1))
     @ '' of '' @ print_int (sint max_retries) @ '')...''"

text \<open>
  How the body of the \<open>while\<close> loop ends: it falls through to the loop test with new
  values of \<open>success\<close> and \<open>retries\<close>, it leaves the loop by \<open>break\<close>, or the
  operation threw.
\<close>

datatype control = Next bool int32 | Break | Throw error

text \<open>
  The body of the loop of \<open>retry_operation\<close>. The increment of \<open>retries\<close> cannot
  overflow, as \<open>retries\<close> is below \<open>max_retries\<close> when it happens.
\<close>

definition retry_body ::
  "('d client \<Rightarrow> (error + bool) \<times> 'd client) \<Rightarrow> string \<Rightarrow> int32 \<Rightarrow> int32 \<Rightarrow> 'd client \<Rightarrow>
   event list \<times> control \<times> 'd client" where
  "retry_body operation operation_name max_retries retries s =
     (let announce = retrying operation_name retries max_retries;
          s1 = (if 0 < sint retries then say announce s else s);
          evs = (if 0 < sint retries then [Said announce] else [])
      in
      case operation s1 of
        (Inl e, s2) \<Rightarrow> (evs @ [Invoked (Inl e)], Throw e, s2)
      | (Inr True, s2) \<Rightarrow> (evs @ [Invoked (Inr True)], Next True retries, s2)
      | (Inr False, s2) \<Rightarrow>
          (case observe_shutdown s2 of
             (True, s3) \<Rightarrow>
               (evs @ [Invoked (Inr False), Observed True], Next False retries, s3)
           | (False, s3) \<Rightarrow>
               if sint (retries + 1) < sint max_retries then
                 (case next_input (say ''Operation failed. Retry? (y/n): '' s3) of
                    (answer, s4) \<Rightarrow>
                      if tolower (as_char answer) \<noteq> CHR ''y'' then
                        (evs @ [Invoked (Inr False), Observed False,
                                Said ''Operation failed. Retry? (y/n): '',
                                Asked (as_char answer), Said ''Operation canceled.''],
                         Break, say ''Operation canceled.'' s4)
                      else
                        (evs @ [Invoked (Inr False), Observed False,
                                Said ''Operation failed. Retry? (y/n): '',
                                Asked (as_char answer)],
                         Next False (retries + 1), s4))
               else
                 (evs @ [Invoked (Inr False), Observed False,
                         Said ''Maximum retry attempts reached.''],
                  Next False (retries + 1), say ''Maximum retry attempts reached.'' s3)))"

text \<open>
  The loop itself: its test reads \<open>shutdown_requested\<close> only when the two tests before
  it hold. The lemmas before it are what its termination proof needs.
\<close>

lemma observe_shutdown_flag:
  "observe_shutdown s = (sd, s1) \<Longrightarrow> shutdown_requested s1 = sd \<and> (shutdown_requested s \<longrightarrow> sd)"
  by (auto simp: observe_shutdown_def sigint_handler_def log_signal_event_def Let_def
      split: list.splits if_splits)

lemma observed_clear: "observe_shutdown s = (False, s1) \<Longrightarrow> \<not> shutdown_requested s"
  using observe_shutdown_flag [of s False s1] by auto

lemma observed_set: "observe_shutdown s = (True, s1) \<Longrightarrow> shutdown_requested s1"
  using observe_shutdown_flag [of s True s1] by auto

lemma sint_succ: "sint (a :: int32) < 2 ^ 31 - 1 \<Longrightarrow> sint (a + 1) = sint a + 1"
proof -
  assume a: "sint a < 2 ^ 31 - 1"
  have "- (2 ^ 31) \<le> sint a"
    using sint_ge [of a] by simp
  with a show ?thesis
    by (simp add: sint_word_ariths signed_take_bit_int_eq_self)
qed

lemma sint_succ_below: "sint (a :: int32) < sint (b :: int32) \<Longrightarrow> sint (a + 1) = sint a + 1"
  using sint_lt [of b] by (intro sint_succ) simp

lemma retry_body_progress:
  assumes "retry_body operation operation_name max_retries retries s =
      (evs, Next succeeded' retries', s')"
    and "sint retries < sint max_retries"
  shows "succeeded' \<or> (retries' = retries \<and> shutdown_requested s') \<or>
         (retries' = retries + 1 \<and> sint retries' = sint retries + 1)"
proof -
  let ?s1 = "if 0 < sint retries
    then say (retrying operation_name retries max_retries) s else s"
  obtain r s2 where op: "operation ?s1 = (r, s2)"
    by (cases "operation ?s1")
  show ?thesis
  proof (cases r)
    case (Inl e)
    with assms(1) op show ?thesis
      by (simp add: retry_body_def Let_def)
  next
    case (Inr b)
    show ?thesis
    proof (cases b)
      case True
      with assms(1) op Inr show ?thesis
        by (simp add: retry_body_def Let_def)
    next
      case False
      obtain sd s3 where ob: "observe_shutdown s2 = (sd, s3)"
        by (cases "observe_shutdown s2")
      show ?thesis
      proof (cases sd)
        case True
        with assms(1) op Inr False ob observed_set [of s2 s3] show ?thesis
          by (simp add: retry_body_def Let_def)
      next
        case nsd: False
        with assms(1) op Inr False ob sint_succ_below [OF assms(2)] show ?thesis
          by (auto simp: retry_body_def Let_def split: prod.splits if_splits)
      qed
    qed
  qed
qed

function retry_loop ::
  "('d client \<Rightarrow> (error + bool) \<times> 'd client) \<Rightarrow> string \<Rightarrow> int32 \<Rightarrow> bool \<Rightarrow> int32 \<Rightarrow>
   'd client \<Rightarrow> event list \<times> error option \<times> 'd client" where
  "retry_loop operation operation_name max_retries succeeded retries s =
     (if \<not> succeeded \<and> sint retries < sint max_retries then
        (case observe_shutdown s of
           (True, s1) \<Rightarrow> ([Observed True], None, s1)
         | (False, s1) \<Rightarrow>
             (case retry_body operation operation_name max_retries retries s1 of
                (evs, Throw e, s2) \<Rightarrow> (Observed False # evs, Some e, s2)
              | (evs, Break, s2) \<Rightarrow> (Observed False # evs, None, s2)
              | (evs, Next succeeded' retries', s2) \<Rightarrow>
                  after (Observed False # evs)
                    (retry_loop operation operation_name max_retries succeeded' retries' s2)))
      else ([], None, s))"
  by pat_completeness auto
termination
proof (relation "measure (\<lambda>(operation, operation_name, max_retries, succeeded, retries, s).
    if succeeded then 0
    else 2 * nat (sint max_retries - sint retries)
         + (if shutdown_requested s then 0 else 1) + 1)", goal_cases)
  case 1
  then show ?case by simp
next
  case 2
  then show ?case
    apply clarsimp
    apply (frule observed_clear [OF sym])
    apply (drule retry_body_progress [OF sym])
     apply assumption
    apply auto
    done
qed

declare retry_loop.simps [simp del]

definition retry_operation ::
  "string \<Rightarrow> ('d client \<Rightarrow> (error + bool) \<times> 'd client) \<Rightarrow> int32 \<Rightarrow> 'd client \<Rightarrow>
   event list \<times> error option \<times> 'd client" where
  "retry_operation operation_name operation max_retries s =
     retry_loop operation operation_name max_retries False 0 s"


subsection \<open>The operations behind the menu\<close>

text \<open>
  The closures of \<open>main\<close>, one for each menu entry that talks to a server. What a
  closure captures besides the state (an amount, a file name, a thread count) is an
  argument here. An exception thrown inside a \<open>try\<close> block of the closure is caught
  there; the calls that log a successful operation stand outside it, so their
  exceptions leave the closure.
\<close>

definition login_operation :: "'d double_io \<Rightarrow> ('d::zero) client \<Rightarrow> (error + bool) \<times> 'd client" where
  "login_operation io s =
     (case logging_channel s of
        None \<Rightarrow> (Inr False, say ''Not connected to logging server!'' s)
      | Some ch \<Rightarrow>
          (case send_request io ch ((Request_default LOGIN)\<lparr>user_id := current_user s\<rparr>) s of
             (Inl e, s1) \<Rightarrow> (Inr False, say (''Login failed: '' @ what e) s1)
           | (Inr resp, s1) \<Rightarrow>
               if success resp
               then (Inr True,
                     say (''Logged in as user '' @ print_int (sint (current_user s1))) s1)
               else (Inr False,
                     (say (''Login failed: '' @ message resp) s1)\<lparr>current_user := - 1\<rparr>)))"

text \<open>
  The tail shared by the closures once the server has answered with success: the
  operation is reported to the logging server, if there is one.
\<close>

definition log_transaction ::
  "'d double_io \<Rightarrow> 'd Request \<Rightarrow> string \<Rightarrow> 'd client \<Rightarrow> (error + bool) \<times> 'd client" where
  "log_transaction io audit warning s =
     (case logging_channel s of
        Some lch \<Rightarrow>
          (case send_request io lch audit s of
             (Inl e, s1) \<Rightarrow> (Inl e, s1)
           | (Inr log_resp, s1) \<Rightarrow>
               (Inr True, if \<not> success log_resp then say warning s1 else s1))
      | None \<Rightarrow> (Inr True, say ''Warning: Not connected to logging server'' s))"

definition deposit_operation ::
  "'d double_io \<Rightarrow> 'd \<Rightarrow> ('d::zero) client \<Rightarrow> (error + bool) \<times> 'd client" where
  "deposit_operation io amt s =
     (case finance_channel s of
        None \<Rightarrow> (Inr False, say ''Not connected to finance server!'' s)
      | Some ch \<Rightarrow>
          (case send_request io ch
                  ((Request_default DEPOSIT)\<lparr>user_id := current_user s, amount := amt\<rparr>) s of
             (Inl e, s1) \<Rightarrow> (Inr False, say (''Deposit failed: '' @ what e) s1)
           | (Inr resp, s1) \<Rightarrow>
               if success resp then
                 log_transaction io
                   ((Request_default DEPOSIT)\<lparr>user_id := current_user s1, amount := amt\<rparr>)
                   ''Warning: Failed to log transaction''
                   (say (''Deposit successful. New balance: '' @ write_double io (balance resp))
                      s1)
               else (Inr False, say (''Deposit failed: '' @ message resp) s1)))"

definition withdraw_operation ::
  "'d double_io \<Rightarrow> 'd \<Rightarrow> ('d::zero) client \<Rightarrow> (error + bool) \<times> 'd client" where
  "withdraw_operation io amt s =
     (case finance_channel s of
        None \<Rightarrow> (Inr False, say ''Not connected to finance server!'' s)
      | Some ch \<Rightarrow>
          (case send_request io ch
                  ((Request_default WITHDRAW)\<lparr>user_id := current_user s, amount := amt\<rparr>) s of
             (Inl e, s1) \<Rightarrow> (Inr False, say (''Withdrawal failed: '' @ what e) s1)
           | (Inr resp, s1) \<Rightarrow>
               if success resp then
                 log_transaction io
                   ((Request_default WITHDRAW)\<lparr>user_id := current_user s1, amount := amt\<rparr>)
                   ''Warning: Failed to log transaction''
                   (say (''Withdrawal successful. New balance: ''
                         @ write_double io (balance resp)) s1)
               else (Inr False, say (''Withdrawal failed: '' @ message resp) s1)))"

definition balance_operation :: "'d double_io \<Rightarrow> ('d::zero) client \<Rightarrow> (error + bool) \<times> 'd client" where
  "balance_operation io s =
     (case finance_channel s of
        None \<Rightarrow> (Inr False, say ''Not connected to finance server!'' s)
      | Some ch \<Rightarrow>
          (case send_request io ch
                  ((Request_default BALANCE)\<lparr>user_id := current_user s\<rparr>) s of
             (Inl e, s1) \<Rightarrow> (Inr False, say (''Balance request failed: '' @ what e) s1)
           | (Inr resp, s1) \<Rightarrow>
               if success resp then
                 log_transaction io
                   ((Request_default BALANCE)\<lparr>user_id := current_user s1,
                                               amount := balance resp\<rparr>)
                   ''Warning: Failed to log transaction''
                   (say (''Current balance: '' @ write_double io (balance resp)) s1)
               else (Inr False, say (''Failed to get balance: '' @ message resp) s1)))"

definition upload_operation ::
  "'d double_io \<Rightarrow> string \<Rightarrow> string \<Rightarrow> ('d::zero) client \<Rightarrow> (error + bool) \<times> 'd client" where
  "upload_operation io fname content s =
     (case file_channel s of
        None \<Rightarrow> (Inr False, say ''Not connected to file server!'' s)
      | Some ch \<Rightarrow>
          (case send_request io ch
                  ((Request_default UPLOAD_FILE)\<lparr>user_id := current_user s, filename := fname,
                                                  data := content\<rparr>) s of
             (Inl e, s1) \<Rightarrow> (Inr False, say (''File upload failed: '' @ what e) s1)
           | (Inr resp, s1) \<Rightarrow>
               if success resp then
                 log_transaction io
                   ((Request_default UPLOAD_FILE)\<lparr>user_id := current_user s1,
                                                   filename := fname\<rparr>)
                   ''Warning: Failed to log file upload''
                   (say ''File upload successful'' s1)
               else (Inr False, say (''File upload failed: '' @ message resp) s1)))"

definition download_operation ::
  "'d double_io \<Rightarrow> string \<Rightarrow> ('d::zero) client \<Rightarrow> (error + bool) \<times> 'd client" where
  "download_operation io fname s =
     (case file_channel s of
        None \<Rightarrow> (Inr False, say ''Not connected to file server!'' s)
      | Some ch \<Rightarrow>
          (case send_request io ch
                  ((Request_default DOWNLOAD_FILE)\<lparr>user_id := current_user s,
                                                    filename := fname\<rparr>) s of
             (Inl e, s1) \<Rightarrow> (Inr False, say (''File download failed: '' @ what e) s1)
           | (Inr resp, s1) \<Rightarrow>
               if success resp then
                 if \<not> creatable s1 fname
                 then (Inr False, say ''Error: Could not create output file'' s1)
                 else
                   log_transaction io
                     ((Request_default DOWNLOAD_FILE)\<lparr>user_id := current_user s1,
                                                       filename := fname\<rparr>)
                     ''Warning: Failed to log file download''
                     (say ''File downloaded successfully''
                        (s1\<lparr>files := (files s1)(fname \<mapsto> resp_data resp)\<rparr>))
               else (Inr False, say (''File download failed: '' @ message resp) s1)))"

definition logout_operation :: "'d double_io \<Rightarrow> ('d::zero) client \<Rightarrow> (error + bool) \<times> 'd client" where
  "logout_operation io s =
     (case logging_channel s of
        None \<Rightarrow>
          (Inr True,
           say ''Logged out locally''
             ((say ''Not connected to logging server!'' s)\<lparr>current_user := - 1\<rparr>))
      | Some ch \<Rightarrow>
          (case send_request io ch
                  ((Request_default LOGOUT)\<lparr>user_id := current_user s\<rparr>) s of
             (Inl e, s1) \<Rightarrow>
               (Inr True,
                say ''Logged out locally''
                  ((say (''Logout from server failed: '' @ what e) s1)\<lparr>current_user := - 1\<rparr>))
           | (Inr resp, s1) \<Rightarrow>
               (Inr True, say ''Logged out successfully'' (s1\<lparr>current_user := - 1\<rparr>))))"

definition interest_operation ::
  "'d double_io \<Rightarrow> int32 \<Rightarrow> ('d::zero) client \<Rightarrow> (error + bool) \<times> 'd client" where
  "interest_operation io numThreads s =
     (case finance_channel s of
        None \<Rightarrow> (Inr False, say ''Not connected to finance server!'' s)
      | Some ch \<Rightarrow>
          (case send_request io ch
                  ((Request_default EARN_INTEREST)\<lparr>user_id := current_user s,
                                                    amount := from_int io numThreads\<rparr>) s of
             (Inl e, s1) \<Rightarrow> (Inr False, say (''Interest update failed: '' @ what e) s1)
           | (Inr resp, s1) \<Rightarrow>
               if \<not> success resp
               then (Inr False, say (''Interest update failed: '' @ message resp) s1)
               else
                 log_transaction io
                   ((Request_default EARN_INTEREST)\<lparr>user_id := current_user s1,
                                                     amount := from_int io numThreads\<rparr>)
                   ''Warning: Failed to log transaction''
                   (say ''Interest update successful!'' s1)))"

subsection \<open>The menu loop (main)\<close>

text \<open>
  The pattern every transaction of the menu follows: block \<open>SIGINT\<close>, run the
  operation under \<open>retry_operation\<close>, unblock. An exception that leaves
  \<open>retry_operation\<close> skips the unblocking.
\<close>

definition transaction ::
  "string \<Rightarrow> ('d client \<Rightarrow> (error + bool) \<times> 'd client) \<Rightarrow> int32 \<Rightarrow> 'd client \<Rightarrow>
   error option \<times> 'd client" where
  "transaction operation_name operation max_retries s =
     (case retry_operation operation_name operation max_retries (block_signals s) of
        (evs, Some e, s1) \<Rightarrow> (Some e, s1)
      | (evs, None, s1) \<Rightarrow> (None, unblock_signals s1))"

definition print_menu :: "'d client \<Rightarrow> 'd client" where
  "print_menu s =
     s\<lparr>cout := cout s @
        [''=== Networked Banking System Menu ==='', ''1. Login'', ''2. Deposit'',
         ''3. Withdraw'', ''4. View Balance'', ''5. Upload File'', ''6. Download File'',
         ''7. Logout'', ''8. Server Status'', ''9. Update Interest for All Accounts'',
         ''0. Exit'', ''Enter choice: '']\<rparr>"

definition print_server_status :: "'d client \<Rightarrow> 'd client" where
  "print_server_status s =
     s\<lparr>cout := cout s @ [''=== Server Status ==='']
        @ map (\<lambda>server. name server @ '' (PID: '' @ print_int (sint (pid server)) @ ''): ''
                 @ (if active server then ''ACTIVE'' else ''TERMINATED''))
            (server_processes s)
        @ [''====================='']\<rparr>"

text \<open>
  The \<open>switch\<close> on the choice; the result tells the exception that left it, if any.
\<close>

definition menu_choice ::
  "'d double_io \<Rightarrow> int32 \<Rightarrow> int32 \<Rightarrow> ('d::zero) client \<Rightarrow> error option \<times> 'd client" where
  "menu_choice io max_retries choice s =
     (if choice = 0 then (None, s\<lparr>running := False\<rparr>)
      else if choice = 1 then
        if current_user s \<noteq> - 1
        then (None, say ''Already logged in! Please logout first.'' s)
        else
          (case next_input (say ''Enter user ID: '' s) of
             (inp, s1) \<Rightarrow>
               transaction ''login'' (login_operation io) max_retries
                 (case as_int inp of
                    Read v \<Rightarrow> s1\<lparr>current_user := v\<rparr>
                  | Failed (Some v) \<Rightarrow> s1\<lparr>current_user := v\<rparr>
                  | Failed None \<Rightarrow> s1))
      else if choice = 2 then
        if current_user s = - 1 then (None, say ''Please login first!'' s)
        else
          (case next_input (say ''Enter amount to deposit: '' s) of
             (inp, s1) \<Rightarrow>
               transaction ''deposit'' (deposit_operation io (as_double inp)) max_retries s1)
      else if choice = 3 then
        if current_user s = - 1 then (None, say ''Please login first!'' s)
        else
          (case next_input (say ''Enter amount to withdraw: '' s) of
             (inp, s1) \<Rightarrow>
               transaction ''withdrawal'' (withdraw_operation io (as_double inp)) max_retries
                 s1)
      else if choice = 4 then
        if current_user s = - 1 then (None, say ''Please login first!'' s)
        else transaction ''balance check'' (balance_operation io) max_retries s
      else if choice = 5 then
        if current_user s = - 1 then (None, say ''Please login first!'' s)
        else
          (case next_input (say ''Enter filename to upload: '' s) of
             (inp, s1) \<Rightarrow>
               (case files s1 (as_line inp) of
                  None \<Rightarrow> (None, say ''Error: Could not open file'' s1)
                | Some content \<Rightarrow>
                    transaction ''file upload'' (upload_operation io (as_line inp) content)
                      max_retries s1))
      else if choice = 6 then
        if current_user s = - 1 then (None, say ''Please login first!'' s)
        else
          (case next_input (say ''Enter filename to download: '' s) of
             (inp, s1) \<Rightarrow>
               transaction ''file download'' (download_operation io (as_line inp)) max_retries
                 s1)
      else if choice = 7 then
        if current_user s = - 1 then (None, say ''Not logged in!'' s)
        else transaction ''logout'' (logout_operation io) max_retries s
      else if choice = 8 then (None, print_server_status s)
      else if choice = 9 then
        if current_user s = - 1 then (None, say ''Please login first!'' s)
        else
          (case next_input (say ''Input a number of threads to use: '' s) of
             (inp, s1) \<Rightarrow>
               transaction ''interest update''
                 (interest_operation io
                    (case as_int inp of
                       Read v \<Rightarrow> v
                     | Failed (Some v) \<Rightarrow> v
                     | Failed None \<Rightarrow> 2))
                 max_retries s1)
      else (None, say ''Invalid choice. Please try again.'' s))"

text \<open>
  One turn of the \<open>while\<close> loop of \<open>main\<close>, entered after the loop test has passed.
  The result tells whether the turn left the loop by \<open>break\<close>.
\<close>

definition menu_turn :: "'d double_io \<Rightarrow> int32 \<Rightarrow> ('d::zero) client \<Rightarrow> bool \<times> 'd client" where
  "menu_turn io max_retries s =
     (case next_input (print_menu s) of
        (inp, s1) \<Rightarrow>
          (case as_int inp of
             Failed v \<Rightarrow>
               (case observe_shutdown s1 of
                  (True, s2) \<Rightarrow> (True, s2)
                | (False, s2) \<Rightarrow> (False, say ''Invalid input. Please enter a number: '' s2))
           | Read choice \<Rightarrow>
               (case observe_shutdown s1 of
                  (True, s2) \<Rightarrow> (True, s2)
                | (False, s2) \<Rightarrow>
                    (case menu_choice io max_retries choice s2 of
                       (None, s3) \<Rightarrow> (False, s3)
                     | (Some e, s3) \<Rightarrow>
                         (False,
                          log_signal_event (''Exception caught: '' @ what e)
                            (say (''Error during operation: '' @ what e) s3))))))"

text \<open>
  What \<open>main\<close> does before the loop, with the hosts and ports the command line gave:
  the three pointers are set to null and each \<open>try\<close> block only prints.
\<close>

definition startup ::
  "string \<Rightarrow> int32 \<Rightarrow> string \<Rightarrow> int32 \<Rightarrow> string \<Rightarrow> int32 \<Rightarrow> 'd client \<Rightarrow> 'd client" where
  "startup finance_host finance_port logging_host logging_port file_host file_port s =
     (let s1 = log_signal_event ''Network client started''
                 (log_signal_event ''Signal handlers initialized'' s);
          s2 = say ''Connecting to servers...'' s1;
          s3 = s2\<lparr>finance_channel := None, logging_channel := None, file_channel := None\<rparr>;
          s4 = say (''Connected to finance server at '' @ finance_host @ '':''
                    @ print_int (sint finance_port)) s3;
          s5 = say (''Connected to logging server at '' @ logging_host @ '':''
                    @ print_int (sint logging_port)) s4;
          s6 = say (''Connected to file server at '' @ file_host @ '':''
                    @ print_int (sint file_port)) s5
      in s6\<lparr>current_user := - 1, running := True\<rparr>)"

text \<open>
  The loop. It need not end (at the end of the input every extraction fails and the
  menu is printed again), so it runs on fuel. It returns the states in which the loop
  test was reached, and the state in which the loop was left if it was.
\<close>

fun main_loop ::
  "'d double_io \<Rightarrow> int32 \<Rightarrow> nat \<Rightarrow> ('d::zero) client \<Rightarrow> 'd client list \<times> 'd client option" where
  "main_loop io max_retries 0 s = ([s], None)"
| "main_loop io max_retries (Suc fuel) s =
     (if \<not> running s then ([s], Some s)
      else
        (case observe_shutdown s of
           (True, s1) \<Rightarrow> ([s], Some s1)
         | (False, s1) \<Rightarrow>
             (case menu_turn io max_retries s1 of
                (True, s2) \<Rightarrow> ([s], Some s2)
              | (False, s2) \<Rightarrow>
                  (case main_loop io max_retries fuel s2 of
                     (visited, final) \<Rightarrow> (s # visited, final)))))"

text \<open>One of the three blocks that send \<open>QUIT\<close> to a connected server.\<close>

definition send_quit ::
  "'d double_io \<Rightarrow> NetworkRequestChannel option \<Rightarrow> string \<Rightarrow> ('d::zero) client \<Rightarrow> 'd client" where
  "send_quit io channel server s =
     (case channel of
        None \<Rightarrow> s
      | Some ch \<Rightarrow>
          (case send_request io ch (Request_default QUIT) s of
             (Inl e, s1) \<Rightarrow>
               s1\<lparr>cerr := cerr s1 @ [''Failed to send QUIT to '' @ server @ '' server: ''
                                        @ what e]\<rparr>
           | (Inr resp, s1) \<Rightarrow> say (''QUIT sent to '' @ server @ '' server'') s1))"

text \<open>
  What \<open>main\<close> does after the loop; the three \<open>delete\<close>s at its end free the
  channel objects and change nothing that is modelled.
\<close>

definition shutdown :: "'d double_io \<Rightarrow> ('d::zero) client \<Rightarrow> 'd client" where
  "shutdown io s =
     (case observe_shutdown s of
        (requested, s1) \<Rightarrow>
          (let s2 = (if requested
                     then log_signal_event ''Beginning graceful shutdown''
                            (say ''Performing graceful shutdown...'' s1)
                     else log_signal_event ''Normal exit requested''
                            (say ''Exiting normally...'' s1));
               s3 = say ''Sending shutdown signals to connected servers...'' s2;
               s4 = send_quit io (finance_channel s3) ''finance'' s3;
               s5 = send_quit io (file_channel s4) ''file'' s4;
               s6 = send_quit io (logging_channel s5) ''logging'' s5
           in say ''Shutdown complete.''
                (log_signal_event ''Network client shutdown complete'' s6)))"

text \<open>
  \<open>main\<close>: the states in which the loop test was reached and, when the loop was left
  within the fuel, the state in which the process returns.
\<close>

definition main ::
  "'d double_io \<Rightarrow> string \<Rightarrow> int32 \<Rightarrow> string \<Rightarrow> int32 \<Rightarrow> string \<Rightarrow> int32 \<Rightarrow> int32 \<Rightarrow> nat \<Rightarrow>
   ('d::zero) client \<Rightarrow> 'd client list \<times> 'd client option" where
  "main io finance_host finance_port logging_host logging_port file_host file_port max_retries
     fuel s =
     (case main_loop io max_retries fuel
             (startup finance_host finance_port logging_host logging_port file_host file_port s) of
        (visited, None) \<Rightarrow> (visited, None)
      | (visited, Some s1) \<Rightarrow> (visited, Some (shutdown io s1)))"

subsection \<open>Reading the record of a retry loop\<close>

text \<open>
  The results of the calls of the operation in a record, in order; that no call
  follows any event of a given kind; and the events after the last call.
\<close>

fun invocations :: "event list \<Rightarrow> (error + bool) list" where
  "invocations [] = []"
| "invocations (Invoked r # evs) = r # invocations evs"
| "invocations (_ # evs) = invocations evs"

fun quiet_after :: "(event \<Rightarrow> bool) \<Rightarrow> event list \<Rightarrow> bool" where
  "quiet_after P [] = True"
| "quiet_after P (e # evs) = ((P e \<longrightarrow> invocations evs = []) \<and> quiet_after P evs)"

fun since_last_invocation :: "event list \<Rightarrow> event list" where
  "since_last_invocation [] = []"
| "since_last_invocation (e # evs) =
     (if invocations evs \<noteq> [] then since_last_invocation evs
      else case e of Invoked r \<Rightarrow> evs | _ \<Rightarrow> e # evs)"

text \<open>
  A client process as \<open>main\<close> finds it, for the examples: no signal arrives, the user
  answers \<open>y\<close> to every question and \<open>7\<close> where a number is asked, no file can be
  opened, and every request sent is answered with \<open>1|0||ok\<close>.
\<close>

definition quiet_client :: "real client" where
  "quiet_client =
     \<lparr>shutdown_requested = False, timeout_occurred = False, child_exited = 0,
      server_processes = [], pending_alarm = 0, sigint_blocked = False, sigint = [],
      signals_log = [],
      stdin = (\<lambda>n. \<lparr>as_int = Read 7, as_double = 0, as_char = CHR ''y'', as_line = []\<rparr>),
      stdin_pos = 0, cout = [], cerr = [], files = (\<lambda>f. None), creatable = (\<lambda>f. False),
      net = (\<lambda>n. Reply ''1|0||ok''), net_pos = 0, wire = [],
      finance_channel = None, logging_channel = None, file_channel = None,
      current_user = - 1, running = True\<rparr>"

subsection \<open>A client without connections\<close>

text \<open>
  The three channel pointers are null and nothing has gone to the network since it
  stood at \<open>w\<close>, after \<open>k\<close> calls of \<open>send_request\<close>; and an operation that leaves
  things so whenever it finds them so.
\<close>

definition untouched :: "(int32 \<times> string) list \<Rightarrow> nat \<Rightarrow> 'd client \<Rightarrow> bool" where
  "untouched w k s =
     (finance_channel s = None \<and> logging_channel s = None \<and> file_channel s = None \<and>
      wire s = w \<and> net_pos s = k)"

definition keeps :: "(int32 \<times> string) list \<Rightarrow> nat \<Rightarrow> ('d client \<Rightarrow> 'r \<times> 'd client) \<Rightarrow> bool" where
  "keeps w k operation = (\<forall>s. untouched w k s \<longrightarrow> untouched w k (snd (operation s)))"

text \<open>
  For the examples, a session: the user logs in as 5, deposits 50 and exits; and the
  conversions of \<open>double\<close> that go with it.
\<close>

definition scripted_client :: "real client" where
  "scripted_client =
     quiet_client\<lparr>stdin :=
       (\<lambda>n. \<lparr>as_int = Read (if n = 0 then 1 else if n = 1 then 5 else if n = 2 then 2 else 0),
              as_double = 50, as_char = CHR ''n'', as_line = []\<rparr>)\<rparr>"

definition plain_io :: "real double_io" where
  "plain_io = \<lparr>write_double = (\<lambda>d. ''50''), read_double = (\<lambda>s. Inr 0), from_int = (\<lambda>i. 0)\<rparr>"

section \<open>Properties of the wire codec\<close>

lemma split_loop_nodelim: "CHR ''|'' \<notin> set a \<Longrightarrow> split_loop a parts = parts @ [a]"
  by (subst split_loop.simps) (simp add: str_find_def)

lemma split_loop_field:
  "CHR ''|'' \<notin> set a \<Longrightarrow> split_loop (a @ CHR ''|'' # rest) parts = split_loop rest (parts @ [a])"
proof -
  assume a: "CHR ''|'' \<notin> set a"
  then have tw: "takeWhile (\<lambda>x. x \<noteq> CHR ''|'') (a @ CHR ''|'' # rest) = a"
    by (induction a) auto
  have "str_find (a @ CHR ''|'' # rest) CHR ''|'' = Some (length a)"
    by (simp add: str_find_def tw)
  then show ?thesis
    by (subst split_loop.simps) simp
qed

lemma isdigit_char_of: "d < 10 \<Longrightarrow> isdigit (char_of (48 + d :: nat))"
  by (simp add: isdigit_def)

lemma string_of_nat_digits: "c \<in> set (string_of_nat n) \<Longrightarrow> isdigit c"
proof (induction n rule: string_of_nat.induct)
  case (1 n)
  show ?case
  proof (cases "n < 10")
    case True
    with 1(2) show ?thesis by (subst (asm) string_of_nat.simps) (simp add: isdigit_char_of)
  next
    case False
    have "isdigit (char_of (48 + n mod 10))" 
      by (simp add: isdigit_char_of)
    with 1 False show ?thesis by (subst (asm) (2) string_of_nat.simps) auto
  qed
qed

lemma string_of_nat_nonempty: "string_of_nat n \<noteq> []"
  by (subst string_of_nat.simps) simp

lemma decimal_snoc: "decimal (ds @ [c]) = 10 * decimal ds + (of_char c - 48)"
  by (simp add: decimal_def)

lemma of_char_char_of_digit: "d < 10 \<Longrightarrow> (of_char (char_of (48 + d :: nat)) :: int) = 48 + int d"
proof -
  assume d: "d < 10"
  have "(of_char (char_of (48 + d)) :: int) = int (of_char (char_of (48 + d)))"
    by (simp only: of_nat_of_char)
  also have "\<dots> = int (48 + d)"
    using d by simp
  finally show ?thesis by simp
qed

lemma decimal_string_of_nat: "decimal (string_of_nat n) = int n"
proof (induction n rule: string_of_nat.induct)
  case (1 n)
  show ?case
  proof (cases "n < 10")
    case True
    then show ?thesis by (subst string_of_nat.simps) (simp add: decimal_def of_char_char_of_digit)
  next
    case False
    have "(of_char (char_of (48 + n mod 10)) :: int) = 48 + int (n mod 10)"
      by (rule of_char_char_of_digit) simp
    moreover have "10 * int (n div 10) + int (n mod 10) = int n"
      by (simp add: zmod_int zdiv_int)
    ultimately show ?thesis using 1 False
      by (subst string_of_nat.simps) (simp add: decimal_snoc)
  qed
qed


lemma isdigit_not_space: "isdigit c \<Longrightarrow> \<not> isspace c"
  by (auto simp: isdigit_def isspace_def)

lemma isdigit_not_sign: "isdigit c \<Longrightarrow> c \<noteq> CHR ''-'' \<and> c \<noteq> CHR ''+''"
  by (auto simp: isdigit_def)

lemma takeWhile_string_of_nat: "takeWhile isdigit (string_of_nat n) = string_of_nat n"
  by (simp add: takeWhile_eq_all_conv string_of_nat_digits)

lemma stoi_unsigned:
  assumes "s \<noteq> []" "\<forall>c \<in> set s. isdigit c"
  shows "stoi s =
    (if 2 ^ 31 - 1 < decimal s \<or> decimal s < - (2 ^ 31) then Inl OutOfRange
     else Inr (word_of_int (decimal s)))"
proof -
  from assms have c: "isdigit (hd s)"
    by (cases s) auto
  have 1: "dropWhile isspace s = s"
    using assms(1) isdigit_not_space [OF c] by (cases s) auto
  have 2: "(s \<noteq> [] \<and> hd s = CHR ''-'') = False"
    using isdigit_not_sign [OF c] by simp
  have 3: "(s \<noteq> [] \<and> (hd s = CHR ''-'' \<or> hd s = CHR ''+'')) = False"
    using isdigit_not_sign [OF c] by simp
  have 4: "takeWhile isdigit s = s"
    using assms(2) by (simp add: takeWhile_eq_all_conv)
  show ?thesis
    unfolding stoi_def Let_def 1 2 3 if_False 4 using assms(1) by auto
qed

lemma stoi_negative:
  assumes "s \<noteq> []" "\<forall>c \<in> set s. isdigit c"
  shows "stoi (CHR ''-'' # s) =
    (if 2 ^ 31 - 1 < - decimal s \<or> - decimal s < - (2 ^ 31) then Inl OutOfRange
     else Inr (word_of_int (- decimal s)))"
proof -
  have 1: "dropWhile isspace (CHR ''-'' # s) = CHR ''-'' # s"
    by (simp add: isspace_def)
  have 4: "takeWhile isdigit s = s"
    using assms(2) by (simp add: takeWhile_eq_all_conv)
  show ?thesis
    unfolding stoi_def Let_def 1 using assms(1) by (auto simp: 4)
qed

lemma stoi_digits:
  assumes "int n < 2 ^ 31"
  shows "stoi (string_of_nat n) = Inr (word_of_int (int n))"
  using assms string_of_nat_digits [of _ n]
  by (subst stoi_unsigned) (auto simp: string_of_nat_nonempty decimal_string_of_nat)

lemma stoi_minus_digits:
  assumes "int n \<le> 2 ^ 31"
  shows "stoi (CHR ''-'' # string_of_nat n) = Inr (word_of_int (- int n))"
  using assms string_of_nat_digits [of _ n]
  by (subst stoi_negative) (auto simp: string_of_nat_nonempty decimal_string_of_nat)

lemma stoi_print_int:
  assumes "- (2 ^ 31) \<le> i" "i < 2 ^ 31"
  shows "stoi (print_int i) = Inr (word_of_int i)"
proof (cases "i < 0")
  case True
  with assms stoi_minus_digits [of "nat (- i)"] show ?thesis
    by (simp add: print_int_def)
next
  case False
  with assms stoi_digits [of "nat i"] show ?thesis
    by (simp add: print_int_def)
qed

lemma stoi_print_sint: "stoi (print_int (sint (w :: int32))) = Inr w"
proof -
  have "- (2 ^ 31) \<le> sint w" "sint w < 2 ^ 31"
    using sint_ge [of w] sint_lt [of w] by simp_all
  then show ?thesis
    by (simp add: stoi_print_int)
qed

lemma print_int_no_delim: "CHR ''|'' \<notin> set (print_int i)"
proof -
  have "\<not> isdigit CHR ''|''"
    by (simp add: isdigit_def)
  then have "CHR ''|'' \<notin> set (string_of_nat n)" for n
    using string_of_nat_digits by blast
  then show ?thesis
    by (simp add: print_int_def)
qed

lemma stoi_ordinal: "stoi (print_int (ordinal t)) = Inr (word_of_int (ordinal t))"
  by (rule stoi_print_int) (cases t; simp)+

lemma sint_ordinal: "sint (word_of_int (ordinal t) :: int32) = ordinal t"
  by (cases t) simp_all

lemma RequestTypes_ordinal: "RequestTypes ! nat (ordinal t) = t"
  by (cases t) (simp_all add: RequestTypes_def)

lemma ordinal_range: "0 \<le> ordinal t \<and> ordinal t \<le> 8"
  by (cases t) simp_all

lemma split_request_str:
  assumes "CHR ''|'' \<notin> set (put_double (amount req))" "CHR ''|'' \<notin> set (filename req)"
    "CHR ''|'' \<notin> set (data req)"
  shows "split_loop (request_str put_double req) [] =
    [print_int (ordinal (type req)), print_int (sint (user_id req)), put_double (amount req),
     filename req, data req]"
  using assms
  by (simp add: request_str_def split_loop_field split_loop_nodelim print_int_no_delim)

subsection \<open>Decoding what was encoded\<close>

text \<open>
  C2 (amended). For every \<open>Request\<close> whose file name, data and printed amount contain no
  delimiter \<open>|\<close>, decoding the body that \<open>send_request\<close> builds gives back the same
  kind, user id, file name and data; the amount is whatever \<open>std::stod\<close> reads from the
  text the stream printed for it (and an exception of \<open>std::stod\<close> is the result if it
  throws there).
\<close>

theorem request_roundtrip:
  assumes "CHR ''|'' \<notin> set (put_double (amount req))" "CHR ''|'' \<notin> set (filename req)"
    "CHR ''|'' \<notin> set (data req)"
  shows "parseRequest stod (request_str put_double req) =
    (case stod (put_double (amount req)) of
       Inl e \<Rightarrow> Inl e
     | Inr amt \<Rightarrow> Inr (req\<lparr>amount := amt\<rparr>))"
  using ordinal_range [of "type req"]
  by (simp add: parseRequest_def split_request_str assms stoi_ordinal stoi_print_sint
      sint_ordinal RequestTypes_ordinal split: sum.splits)

text \<open>
  A deposit of 50 for user 7, with the stream printing the amount as \<open>50\<close> and
  \<open>std::stod\<close> reading \<open>50\<close> back.
\<close>

theorem request_roundtrip_witness:
  "CHR ''|'' \<notin> set ''50'' \<and> CHR ''|'' \<notin> set [] \<and>
   parseRequest (\<lambda>s. Inr (50::real))
     (request_str (\<lambda>a. ''50'')
        \<lparr>type = DEPOSIT, user_id = 7, amount = 50::real, filename = [], data = []\<rparr>) =
   Inr \<lparr>type = DEPOSIT, user_id = 7, amount = 50, filename = [], data = []\<rparr>"
  using request_roundtrip [of "\<lambda>a. ''50''"
      "\<lparr>type = DEPOSIT, user_id = 7, amount = 50::real, filename = [], data = []\<rparr>"
      "\<lambda>s. Inr 50"]
  by simp

text \<open>
  The claim as stated fails for a file name that holds the delimiter: the upload of
  \<open>a|b\<close> with data \<open>c\<close> is sent as \<open>4|7|0|a|b|c\<close> and decoded with file name \<open>a\<close>
  and data \<open>b\<close>.
\<close>

theorem request_roundtrip_counterexample:
  "parseRequest (\<lambda>s. Inr (0::real))
     (request_str (\<lambda>a. ''0'')
        \<lparr>type = UPLOAD_FILE, user_id = 7, amount = 0::real, filename = ''a|b'',
         data = ''c''\<rparr>) =
   Inr \<lparr>type = UPLOAD_FILE, user_id = 7, amount = 0, filename = ''a'', data = ''b''\<rparr>"
  by code_simp

subsection \<open>The sentinel Quit request\<close>

text \<open>
  C1 (amended). For every body that splits into fewer than 5 fields, or whose first field
  \<open>std::stoi\<close> reads as an \<open>int\<close> outside 0..8, \<open>parseRequest\<close> returns the sentinel
  \<open>Quit\<close> request with default fields (user id 0, amount 0.0, empty file name and data)
  and throws nothing.
\<close>

theorem parseRequest_sentinel:
  assumes "length (split_loop buffer []) < 5 \<or>
     (\<exists>ty. stoi (split_loop buffer [] ! 0) = Inr ty \<and> (sint ty < 0 \<or> 8 < sint ty))"
  shows "parseRequest stod buffer =
    Inr \<lparr>type = QUIT, user_id = 0, amount = 0, filename = [], data = []\<rparr>"
  using assms by (auto simp: parseRequest_def Request_default_def Let_def)

theorem parseRequest_sentinel_witness:
  "length (split_loop ''1|7'' []) < 5 \<and>
   parseRequest (\<lambda>s. Inr (2::real)) ''1|7'' =
     Inr \<lparr>type = QUIT, user_id = 0, amount = 0, filename = [], data = []\<rparr> \<and>
   stoi (split_loop ''42|1|2|f|d'' [] ! 0) = Inr 42 \<and> 8 < sint (42 :: int32) \<and>
   parseRequest (\<lambda>s. Inr (2::real)) ''42|1|2|f|d'' =
     Inr \<lparr>type = QUIT, user_id = 0, amount = 0, filename = [], data = []\<rparr>"
proof -
  have short: "length (split_loop ''1|7'' []) < 5"
    by code_simp
  have kind: "stoi (split_loop ''42|1|2|f|d'' [] ! 0) = Inr 42"
    by code_simp
  have range: "8 < sint (42 :: int32)"
    by simp
  show ?thesis
    using short kind range
      parseRequest_sentinel [of "''1|7''" "\<lambda>s. Inr (2::real)"]
      parseRequest_sentinel [of "''42|1|2|f|d''" "\<lambda>s. Inr (2::real)"]
    by blast
qed

text \<open>
  The claim as stated fails in two ways. A body of six fields does not split into five,
  yet it is decoded from its first five fields: \<open>1|2|3|a|b|c\<close> is a deposit. And a kind
  field that is an integer too large for an \<open>int\<close> makes \<open>std::stoi\<close> throw
  \<open>std::out_of_range\<close>.
\<close>

theorem parseRequest_sentinel_counterexample:
  "length (split_loop ''1|2|3|a|b|c'' []) = 6 \<and>
   parseRequest (\<lambda>s. Inr (3::real)) ''1|2|3|a|b|c'' =
     Inr \<lparr>type = DEPOSIT, user_id = 2, amount = 3, filename = ''a'', data = ''b''\<rparr> \<and>
   parseRequest (\<lambda>s. Inr (0::real)) ''99999999999|0|0|a|b'' = Inl OutOfRange"
  by (intro conjI; code_simp)

subsection \<open>When decoding throws\<close>

text \<open>
  C10. \<open>parseRequest\<close> is partial. It throws exactly on the bodies of at least 5 fields
  whose kind field \<open>std::stoi\<close> cannot read, or whose kind is read within 0..8 and whose
  user id \<open>std::stoi\<close> cannot read or whose amount \<open>std::stod\<close> cannot read; the
  exception is the one \<open>std::stoi\<close> or \<open>std::stod\<close> threw. No sentinel is substituted
  there, and a body of at least 5 fields with a kind within 0..8 that is decoded is
  decoded from its own fields: the sentinel stands in only for too few fields and for a
  kind read outside 0..8.
\<close>

theorem parseRequest_throws:
  "(parseRequest stod buffer = Inl e \<longleftrightarrow>
      5 \<le> length (split_loop buffer []) \<and>
      (stoi (split_loop buffer [] ! 0) = Inl e \<or>
       (\<exists>ty. stoi (split_loop buffer [] ! 0) = Inr ty \<and> 0 \<le> sint ty \<and> sint ty \<le> 8 \<and>
         (stoi (split_loop buffer [] ! 1) = Inl e \<or>
          (\<exists>uid. stoi (split_loop buffer [] ! 1) = Inr uid \<and>
             stod (split_loop buffer [] ! 2) = Inl e))))) \<and>
   (5 \<le> length (split_loop buffer []) \<and> stoi (split_loop buffer [] ! 0) = Inr ty \<and>
    0 \<le> sint ty \<and> sint ty \<le> 8 \<and> parseRequest stod buffer = Inr r \<longrightarrow>
      type r = RequestTypes ! nat (sint ty) \<and>
      stoi (split_loop buffer [] ! 1) = Inr (user_id r) \<and>
      stod (split_loop buffer [] ! 2) = Inr (amount r) \<and>
      filename r = split_loop buffer [] ! 3 \<and> data r = split_loop buffer [] ! 4)"
  by (auto simp: parseRequest_def Let_def split: sum.splits)

text \<open>
  Three bodies of five fields, with a \<open>std::stod\<close> that reads \<open>2\<close> and rejects every
  other text: the kind \<open>abc\<close>, the user id \<open>x\<close> and the amount \<open>x\<close> each make the
  decoding throw \<open>std::invalid_argument\<close>.
\<close>

theorem parseRequest_throws_witness:
  "parseRequest (\<lambda>s. if s = ''2'' then Inr (2::real) else Inl InvalidArgument)
     ''abc|1|2|f|d'' = Inl InvalidArgument \<and>
   parseRequest (\<lambda>s. if s = ''2'' then Inr (2::real) else Inl InvalidArgument)
     ''1|x|2|f|d'' = Inl InvalidArgument \<and>
   parseRequest (\<lambda>s. if s = ''2'' then Inr (2::real) else Inl InvalidArgument)
     ''1|1|x|f|d'' = Inl InvalidArgument"
proof -
  let ?stod = "\<lambda>s. if s = ''2'' then Inr (2::real) else Inl InvalidArgument"
  have a: "5 \<le> length (split_loop ''abc|1|2|f|d'' [])"
    "stoi (split_loop ''abc|1|2|f|d'' [] ! 0) = Inl InvalidArgument"
    by code_simp+
  have b: "5 \<le> length (split_loop ''1|x|2|f|d'' [])"
    "stoi (split_loop ''1|x|2|f|d'' [] ! 0) = Inr 1"
    "stoi (split_loop ''1|x|2|f|d'' [] ! 1) = Inl InvalidArgument"
    by code_simp+
  have c: "5 \<le> length (split_loop ''1|1|x|f|d'' [])"
    "stoi (split_loop ''1|1|x|f|d'' [] ! 0) = Inr 1"
    "stoi (split_loop ''1|1|x|f|d'' [] ! 1) = Inr 1"
    "?stod (split_loop ''1|1|x|f|d'' [] ! 2) = Inl InvalidArgument"
    by code_simp+
  have r: "0 \<le> sint (1 :: int32)" "sint (1 :: int32) \<le> 8"
    by simp_all
  have "parseRequest ?stod ''abc|1|2|f|d'' = Inl InvalidArgument"
    using a parseRequest_throws [of ?stod "''abc|1|2|f|d''" InvalidArgument] by blast
  moreover have "parseRequest ?stod ''1|x|2|f|d'' = Inl InvalidArgument"
    using b r parseRequest_throws [of ?stod "''1|x|2|f|d''" InvalidArgument] by blast
  moreover have "parseRequest ?stod ''1|1|x|f|d'' = Inl InvalidArgument"
    using c r parseRequest_throws [of ?stod "''1|1|x|f|d''" InvalidArgument] by blast
  ultimately show ?thesis by blast
qed

section \<open>Properties of the timeout helper\<close>

text \<open>
  C7 (amended). For every operation closure and timeout value, \<open>execute_with_timeout\<close>
  clears the timeout flag and arms the alarm before it invokes the operation. When the
  operation returns, the alarm is disarmed (\<open>alarm(0)\<close>), nothing else of the state the
  operation left is changed, and the result is true if and only if the operation
  returned true and the timeout flag is not set. When the operation throws, the
  exception leaves \<open>execute_with_timeout\<close> with the state as the operation left it:
  \<open>alarm(0)\<close> is not called.
\<close>

theorem execute_with_timeout_paths:
  "(operation (s\<lparr>timeout_occurred := False, pending_alarm := unat timeout_seconds\<rparr>)
      = (Inr result, s') \<longrightarrow>
    execute_with_timeout operation timeout_seconds s
      = (Inr (result \<and> \<not> timeout_occurred s'), s'\<lparr>pending_alarm := 0\<rparr>)) \<and>
   (operation (s\<lparr>timeout_occurred := False, pending_alarm := unat timeout_seconds\<rparr>)
      = (Inl e, s') \<longrightarrow>
    execute_with_timeout operation timeout_seconds s = (Inl e, s'))"
  by (simp add: execute_with_timeout_def alarm_def)

text \<open>
  An operation that returns true while the alarm fires (the flag is set, no alarm is
  left), and one that throws at once, both with a timeout of 5 seconds.
\<close>

theorem execute_with_timeout_paths_witness:
  "execute_with_timeout (\<lambda>s. (Inr True, s\<lparr>timeout_occurred := True, pending_alarm := 0\<rparr>)) 5
     \<lparr>shutdown_requested = False, timeout_occurred = False, child_exited = 0,
      server_processes = [], pending_alarm = 0, sigint_blocked = False, sigint = [],
      signals_log = []\<rparr>
   = (Inr False,
      \<lparr>shutdown_requested = False, timeout_occurred = True, child_exited = 0,
       server_processes = [], pending_alarm = 0, sigint_blocked = False, sigint = [],
       signals_log = []\<rparr>) \<and>
   execute_with_timeout (\<lambda>s. (Inl (RuntimeError ''send() request body failed!''), s)) 5
     \<lparr>shutdown_requested = False, timeout_occurred = False, child_exited = 0,
      server_processes = [], pending_alarm = 0, sigint_blocked = False, sigint = [],
      signals_log = []\<rparr>
   = (Inl (RuntimeError ''send() request body failed!''),
      \<lparr>shutdown_requested = False, timeout_occurred = False, child_exited = 0,
       server_processes = [], pending_alarm = 5, sigint_blocked = False, sigint = [],
       signals_log = []\<rparr>)"
  using
    execute_with_timeout_paths [where
      operation = "\<lambda>s. (Inr True, s\<lparr>timeout_occurred := True, pending_alarm := 0\<rparr>)"
      and s = "\<lparr>shutdown_requested = False, timeout_occurred = False, child_exited = 0,
        server_processes = [], pending_alarm = 0, sigint_blocked = False, sigint = [],
        signals_log = []\<rparr>" and timeout_seconds = 5 and result = True
      and s' = "\<lparr>shutdown_requested = False, timeout_occurred = True, child_exited = 0,
        server_processes = [], pending_alarm = 0, sigint_blocked = False, sigint = [],
        signals_log = []\<rparr>"]
    execute_with_timeout_paths [where
      operation = "\<lambda>s. (Inl (RuntimeError ''send() request body failed!''), s)"
      and s = "\<lparr>shutdown_requested = False, timeout_occurred = False, child_exited = 0,
        server_processes = [], pending_alarm = 0, sigint_blocked = False, sigint = [],
        signals_log = []\<rparr>" and timeout_seconds = 5
      and e = "RuntimeError ''send() request body failed!''"
      and s' = "\<lparr>shutdown_requested = False, timeout_occurred = False, child_exited = 0,
        server_processes = [], pending_alarm = 5, sigint_blocked = False, sigint = [],
        signals_log = []\<rparr>"]
  by simp

text \<open>
  The claim as stated fails when the operation throws: the alarm armed for 5 seconds is
  still armed when the exception leaves \<open>execute_with_timeout\<close>.
\<close>

theorem execute_with_timeout_counterexample:
  "pending_alarm (snd (execute_with_timeout
       (\<lambda>s. (Inl (RuntimeError ''send() request body failed!''), s)) 5
       \<lparr>shutdown_requested = False, timeout_occurred = False, child_exited = 0,
        server_processes = [], pending_alarm = 0, sigint_blocked = False, sigint = [],
        signals_log = []\<rparr>)) = 5"
  by (simp add: execute_with_timeout_def alarm_def)

section \<open>Properties of the worker pool\<close>

lemma held_update:
  "i < length ws \<Longrightarrow>
   (\<Sum>w\<leftarrow>ws[i := v]. mset (held w)) + mset (held (ws ! i)) =
   (\<Sum>w\<leftarrow>ws. mset (held w)) + mset (held v)"
proof (induction ws arbitrary: i)
  case Nil
  then show ?case by simp
next
  case (Cons a ws)
  show ?case
  proof (cases i)
    case 0
    then show ?thesis by simp
  next
    case (Suc j)
    with Cons.prems have "j < length ws" by simp
    from Cons.IH [OF this] Suc show ?thesis by (simp add: ac_simps)
  qed
qed

lemma held_update_same:
  "i < length ws \<Longrightarrow> held v = held (ws ! i) \<Longrightarrow>
   (\<Sum>w\<leftarrow>ws[i := v]. mset (held w)) = (\<Sum>w\<leftarrow>ws. mset (held w))"
  using held_update [of i ws v] by simp

lemma held_update_take:
  "i < length ws \<Longrightarrow> held (ws ! i) = [] \<Longrightarrow>
   (\<Sum>w\<leftarrow>ws[i := v]. mset (held w)) = (\<Sum>w\<leftarrow>ws. mset (held w)) + mset (held v)"
  using held_update [of i ws v] by simp

lemma held_update_drop:
  "i < length ws \<Longrightarrow> held v = [] \<Longrightarrow>
   (\<Sum>w\<leftarrow>ws[i := v]. mset (held w)) + mset (held (ws ! i)) = (\<Sum>w\<leftarrow>ws. mset (held w))"
  using held_update [of i ws v] by simp

lemma worker_step_conserves:
  assumes "i < length (workers p)"
  shows "unfinished (worker_step exec i p) + mset (completed (worker_step exec i p)) =
         unfinished p + mset (completed p)"
proof (cases "workers p ! i")
  case W_Wait
  with assms show ?thesis
    by (simp add: worker_step_def unfinished_def held_update_same)
next
  case W_Locked
  show ?thesis
  proof (cases "tasks p")
    case Nil
    with W_Locked assms show ?thesis
      by (simp add: worker_step_def unfinished_def held_update_same)
  next
    case (Cons t ts)
    with W_Locked assms show ?thesis
      by (simp add: worker_step_def unfinished_def held_update_take)
  qed
next
  case (W_Popped t)
  with assms show ?thesis
    by (simp add: worker_step_def unfinished_def held_update_same)
next
  case (W_Running t)
  with assms held_update_drop [of i "workers p" W_Ran] show ?thesis
    by (simp add: worker_step_def unfinished_def)
next
  case W_Ran
  with assms show ?thesis
    by (simp add: worker_step_def unfinished_def held_update_same)
next
  case W_Notify
  with assms show ?thesis
    by (simp add: worker_step_def unfinished_def held_update_same)
next
  case W_Exited
  then show ?thesis
    by (simp add: worker_step_def)
qed

lemma owner_step_conserves:
  "unfinished (owner_step p) + mset (completed (owner_step p)) =
   unfinished p + mset (completed p)"
proof (cases "owner p")
  case (O_Enqueue ts)
  then show ?thesis
    by (cases ts) (simp_all add: owner_step_def unfinished_def)
qed (simp_all add: owner_step_def unfinished_def)

lemma step_conserves:
  "unfinished (step exec tid p) + mset (completed (step exec tid p)) =
   unfinished p + mset (completed p)"
  by (cases tid) (simp_all add: step_def owner_step_conserves worker_step_conserves)

lemma run_pool_conserves:
  "unfinished (run_pool exec schedule p) + mset (completed (run_pool exec schedule p)) =
   unfinished p + mset (completed p)"
  by (induction schedule arbitrary: p) (simp_all add: step_conserves)

lemma worker_step_length [simp]: "length (workers (worker_step exec i p)) = length (workers p)"
  by (cases "workers p ! i") (simp_all add: worker_step_def)

lemma owner_step_workers [simp]: "workers (owner_step p) = workers p"
proof (cases "owner p")
  case (O_Enqueue ts)
  then show ?thesis by (cases ts) (simp_all add: owner_step_def)
qed (simp_all add: owner_step_def)

lemma step_length [simp]: "length (workers (step exec tid p)) = length (workers p)"
  by (cases tid) (simp_all add: step_def)

lemma worker_step_owner [simp]: "owner (worker_step exec i p) = owner p"
  by (cases "workers p ! i") (simp_all add: worker_step_def)

lemma worker_step_stop [simp]: "stop (worker_step exec i p) = stop p"
  by (cases "workers p ! i") (simp_all add: worker_step_def)

lemma worker_step_tasks_Nil: "tasks p = [] \<Longrightarrow> tasks (worker_step exec i p) = []"
  by (cases "workers p ! i") (simp_all add: worker_step_def)

lemma worker_step_exited:
  "k < length (workers p) \<Longrightarrow> workers p ! k = W_Exited \<Longrightarrow>
   workers (worker_step exec i p) ! k = W_Exited"
  by (cases "workers p ! i"; cases "k = i") (simp_all add: worker_step_def)

lemma worker_step_exits:
  "i < length (workers p) \<Longrightarrow> k < length (workers p) \<Longrightarrow>
   workers (worker_step exec i p) ! k = W_Exited \<Longrightarrow>
   workers p ! k = W_Exited \<or> stop p"
  by (cases "workers p ! i"; cases "k = i") (auto simp: worker_step_def split: if_splits)

lemma worker_step_ctrl:
  assumes inv: "ctrl_inv p" and i: "i < length (workers p)"
  shows "ctrl_inv (worker_step exec i p)"
proof -
  let ?q = "worker_step exec i p"
  have pw: "past_wait ?q = past_wait p"
    by (simp add: past_wait_def)
  have 1: "stop ?q \<longrightarrow> tasks ?q = [] \<and> past_wait ?q"
    using inv by (simp add: pw ctrl_inv_def worker_step_tasks_Nil)
  have 2: "past_wait ?q \<longrightarrow> stop ?q"
    using inv by (simp add: pw ctrl_inv_def)
  have 3: "owner ?q = O_DStop \<longrightarrow> tasks ?q = []"
    using inv by (simp add: ctrl_inv_def worker_step_tasks_Nil)
  have 4: "\<forall>j k. owner ?q = O_Join j \<and> k < j \<and> k < length (workers ?q) \<longrightarrow>
      workers ?q ! k = W_Exited"
    using inv by (auto simp: ctrl_inv_def intro: worker_step_exited)
  have 5: "owner ?q = O_Returned \<longrightarrow> (\<forall>k < length (workers ?q). workers ?q ! k = W_Exited)"
    using inv by (auto simp: ctrl_inv_def intro: worker_step_exited)
  have 6: "\<forall>k < length (workers ?q). workers ?q ! k = W_Exited \<longrightarrow> stop ?q"
  proof (intro allI impI)
    fix k assume k: "k < length (workers ?q)" and e: "workers ?q ! k = W_Exited"
    from k have k': "k < length (workers p)" by simp
    from worker_step_exits [OF i k' e] have "workers p ! k = W_Exited \<or> stop p" .
    with inv k' show "stop ?q" by (auto simp: ctrl_inv_def)
  qed
  from 1 2 3 4 5 6 show ?thesis
    unfolding ctrl_inv_def by blast
qed

lemma owner_step_ctrl:
  assumes "ctrl_inv p"
  shows "ctrl_inv (owner_step p)"
proof (cases "owner p")
  case (O_Enqueue ts)
  with assms show ?thesis
    by (cases ts) (auto simp: owner_step_def ctrl_inv_def past_wait_def)
next
  case (O_Join j)
  with assms show ?thesis
    by (auto simp: owner_step_def ctrl_inv_def past_wait_def less_Suc_eq)
qed (use assms in \<open>auto simp: owner_step_def ctrl_inv_def past_wait_def\<close>)

lemma step_ctrl: "ctrl_inv p \<Longrightarrow> ctrl_inv (step exec tid p)"
  by (cases tid) (simp_all add: step_def owner_step_ctrl worker_step_ctrl)

lemma run_pool_ctrl: "ctrl_inv p \<Longrightarrow> ctrl_inv (run_pool exec schedule p)"
  by (induction schedule arbitrary: p) (simp_all add: step_ctrl)

lemma ThreadPool_new_ctrl: "ctrl_inv (ThreadPool_new n ts mem)"
  by (simp add: ctrl_inv_def past_wait_def ThreadPool_new_def)

lemma ThreadPool_new_unfinished: "unfinished (ThreadPool_new n ts mem) = mset ts"
  by (induction n) (simp_all add: unfinished_def ThreadPool_new_def)

lemma worker_step_mem: "mem_inv exec mem p \<Longrightarrow> mem_inv exec mem (worker_step exec i p)"
  by (cases "workers p ! i") (simp_all add: worker_step_def mem_inv_def)

lemma owner_step_mem: "mem_inv exec mem p \<Longrightarrow> mem_inv exec mem (owner_step p)"
proof (cases "owner p")
  case (O_Enqueue ts)
  then show "mem_inv exec mem p \<Longrightarrow> ?thesis"
    by (cases ts) (simp_all add: owner_step_def mem_inv_def)
qed (simp_all add: owner_step_def mem_inv_def)

lemma step_mem: "mem_inv exec mem p \<Longrightarrow> mem_inv exec mem (step exec tid p)"
  by (cases tid) (simp_all add: step_def owner_step_mem worker_step_mem)

lemma run_pool_mem: "mem_inv exec mem p \<Longrightarrow> mem_inv exec mem (run_pool exec schedule p)"
  by (induction schedule arbitrary: p) (simp_all add: step_mem)

lemma executing_update:
  "i < length ws \<Longrightarrow>
   length (filter executing (ws[i := v])) + (if executing (ws ! i) then 1 else 0) =
   length (filter executing ws) + (if executing v then 1 else 0)"
proof (induction ws arbitrary: i)
  case Nil
  then show ?case by simp
next
  case (Cons a ws)
  show ?case
  proof (cases i)
    case 0
    then show ?thesis by simp
  next
    case (Suc j)
    with Cons.prems have "j < length ws" by simp
    from Cons.IH [OF this] Suc show ?thesis by simp
  qed
qed

lemma sint_pred: "0 < sint (a :: int32) \<Longrightarrow> sint (a - 1) = sint a - 1"
proof -
  assume a: "0 < sint a"
  have "sint a < 2 ^ 31"
    using sint_lt [of a] by simp
  with a show ?thesis
    by (simp add: sint_word_ariths signed_take_bit_int_eq_self)
qed

lemma worker_step_count:
  assumes "count_inv p" "i < length (workers p)" "length (workers p) < 2 ^ 31"
  shows "count_inv (worker_step exec i p)"
proof -
  have le: "length (filter executing ws) \<le> length ws" for ws :: "'a worker list"
    by simp
  note upd = executing_update [OF assms(2)]
  show ?thesis
  proof (cases "workers p ! i")
    case (W_Popped t)
    from upd [of "W_Running t"] W_Popped
    have n: "length (filter executing ((workers p)[i := W_Running t])) =
        length (filter executing (workers p)) + 1"
      by simp
    have "length (filter executing ((workers p)[i := W_Running t])) \<le> length (workers p)"
      using le [of "(workers p)[i := W_Running t]"] by simp
    with n assms have "sint (activeTasks p) < 2 ^ 31 - 1"
      by (simp add: count_inv_def)
    with n assms W_Popped show ?thesis
      by (simp add: worker_step_def count_inv_def sint_succ)
  next
    case W_Ran
    from upd [of W_Notify] W_Ran
    have n: "length (filter executing ((workers p)[i := W_Notify])) + 1 =
        length (filter executing (workers p))"
      by simp
    then have pos: "0 < length (filter executing (workers p))"
      by arith
    with assms have "0 < sint (activeTasks p)"
      unfolding count_inv_def by linarith
    moreover have "int (length (filter executing ((workers p)[i := W_Notify]))) =
        int (length (filter executing (workers p))) - 1"
      using n by linarith
    ultimately show ?thesis
      using assms W_Ran by (simp add: worker_step_def count_inv_def sint_pred)
  next
    case W_Wait
    with assms upd [of W_Locked] show ?thesis
      by (simp add: worker_step_def count_inv_def)
  next
    case W_Locked
    with assms upd [of W_Exited] upd [of W_Wait] upd [of "W_Popped (hd (tasks p))"]
    show ?thesis
      by (simp add: worker_step_def count_inv_def)
  next
    case (W_Running t)
    with assms upd [of W_Ran] show ?thesis
      by (simp add: worker_step_def count_inv_def)
  next
    case W_Notify
    with assms upd [of W_Wait] show ?thesis
      by (simp add: worker_step_def count_inv_def)
  next
    case W_Exited
    with assms show ?thesis
      by (simp add: worker_step_def)
  qed
qed

lemma owner_step_count: "count_inv p \<Longrightarrow> count_inv (owner_step p)"
proof (cases "owner p")
  case (O_Enqueue ts)
  then show "count_inv p \<Longrightarrow> ?thesis"
    by (cases ts) (simp_all add: owner_step_def count_inv_def)
qed (auto simp: owner_step_def count_inv_def)

lemma step_count:
  "count_inv p \<Longrightarrow> length (workers p) < 2 ^ 31 \<Longrightarrow> count_inv (step exec tid p)"
  by (cases tid) (simp_all add: step_def owner_step_count worker_step_count)

lemma run_pool_length [simp]: "length (workers (run_pool exec schedule p)) = length (workers p)"
  by (induction schedule arbitrary: p) simp_all

lemma run_pool_count:
  "count_inv p \<Longrightarrow> length (workers p) < 2 ^ 31 \<Longrightarrow> count_inv (run_pool exec schedule p)"
  by (induction schedule arbitrary: p) (simp_all add: step_count)

lemma count_inv_idle:
  assumes "count_inv p" "activeTasks p = 0" "k < length (workers p)"
  shows "\<not> executing (workers p ! k)"
proof -
  from assms have "filter executing (workers p) = []"
    by (simp add: count_inv_def)
  then have "\<forall>w \<in> set (workers p). \<not> executing w"
    by (simp add: filter_empty_conv)
  with assms(3) show ?thesis
    by simp
qed

lemma ThreadPool_new_count: "count_inv (ThreadPool_new n ts mem)"
  by (induction n) (simp_all add: count_inv_def ThreadPool_new_def)

lemma ThreadPool_new_mem: "mem_inv exec mem (ThreadPool_new n ts mem)"
  by (simp add: mem_inv_def ThreadPool_new_def)

lemma no_held: "\<forall>w \<in> set ws. held w = [] \<Longrightarrow> (\<Sum>w\<leftarrow>ws. mset (held w)) = {#}"
  by (induction ws) simp_all

lemma run_pool_completed:
  assumes "p = run_pool exec schedule (ThreadPool_new numThreads ts mem)"
    and "owner p = O_Returned"
  shows "mset (completed p) = mset ts"
proof -
  have inv: "ctrl_inv p"
    unfolding assms(1) by (rule run_pool_ctrl) (rule ThreadPool_new_ctrl)
  with assms(2) have ex: "\<forall>k < length (workers p). workers p ! k = W_Exited"
    and st: "stop p"
    by (simp_all add: ctrl_inv_def past_wait_def)
  from inv st have "tasks p = []"
    by (simp add: ctrl_inv_def)
  moreover from ex have "\<forall>w \<in> set (workers p). held w = []"
    by (auto simp: in_set_conv_nth)
  then have "(\<Sum>w\<leftarrow>workers p. mset (held w)) = {#}"
    by (rule no_held)
  ultimately have "unfinished p = {#}"
    using assms(2) by (simp add: unfinished_def)
  moreover have "completed (ThreadPool_new numThreads ts mem) = []"
    by (simp add: ThreadPool_new_def)
  then have "unfinished p + mset (completed p) = mset ts"
    unfolding assms(1) by (simp add: run_pool_conserves ThreadPool_new_unfinished)
  ultimately show ?thesis
    by simp
qed

subsection \<open>The destructor drains the pool\<close>

text \<open>
  C3. Take any pool, any tasks submitted to it and any interleaving of its threads, and
  look at the state \<open>p\<close> reached. If the destructor has returned, every submitted
  task has completed exactly once (none is dropped, whether it was queued or running
  when the destructor began), the queue is empty, \<open>stop\<close> is set and every worker
  has returned, so every join has succeeded. \<open>stop\<close> is only ever set past the
  destructor's wait, no worker leaves its loop before \<open>stop\<close> is set, and the wait
  lets the destructor through only in a state where the queue is empty and
  \<open>activeTasks\<close> is 0, which with fewer than \<open>2^31\<close> workers means that no worker
  stands between the increment and the decrement around \<open>task()\<close>.
\<close>

theorem ThreadPool_drains:
  assumes "p = run_pool exec schedule (ThreadPool_new numThreads ts mem)"
  shows "(owner p = O_Returned \<longrightarrow>
            mset (completed p) = mset ts \<and> tasks p = [] \<and> stop p \<and>
            (\<forall>k < length (workers p). workers p ! k = W_Exited)) \<and>
         (stop p \<longrightarrow> tasks p = [] \<and> (owner p = O_Returned \<or> (\<exists>j. owner p = O_Join j))) \<and>
         ((\<exists>k < length (workers p). workers p ! k = W_Exited) \<longrightarrow> stop p) \<and>
         (owner p = O_DLocked \<and> owner (owner_step p) = O_DStop \<longrightarrow>
            tasks p = [] \<and> activeTasks p = 0 \<and>
            (numThreads < 2 ^ 31 \<longrightarrow> (\<forall>k < length (workers p). \<not> executing (workers p ! k))))"
proof -
  have inv: "ctrl_inv p"
    unfolding assms by (rule run_pool_ctrl) (rule ThreadPool_new_ctrl)
  have len: "length (workers p) = numThreads"
    unfolding assms by (simp add: ThreadPool_new_def)
  have 1: "owner p = O_Returned \<longrightarrow>
            mset (completed p) = mset ts \<and> tasks p = [] \<and> stop p \<and>
            (\<forall>k < length (workers p). workers p ! k = W_Exited)"
    using inv run_pool_completed [OF assms] by (simp add: ctrl_inv_def past_wait_def)
  have 2: "stop p \<longrightarrow> tasks p = [] \<and> (owner p = O_Returned \<or> (\<exists>j. owner p = O_Join j))"
    using inv by (simp add: ctrl_inv_def past_wait_def)
  have 3: "(\<exists>k < length (workers p). workers p ! k = W_Exited) \<longrightarrow> stop p"
    using inv by (auto simp: ctrl_inv_def)
  have 4: "owner p = O_DLocked \<and> owner (owner_step p) = O_DStop \<longrightarrow>
            tasks p = [] \<and> activeTasks p = 0 \<and>
            (numThreads < 2 ^ 31 \<longrightarrow> (\<forall>k < length (workers p). \<not> executing (workers p ! k)))"
  proof (intro impI, elim conjE)
    assume o: "owner p = O_DLocked" and s: "owner (owner_step p) = O_DStop"
    from o s have g: "tasks p = []" "activeTasks p = 0"
      by (auto simp: owner_step_def split: if_splits)
    have "numThreads < 2 ^ 31 \<longrightarrow> (\<forall>k < length (workers p). \<not> executing (workers p ! k))"
    proof (intro impI allI)
      fix k assume n: "numThreads < 2 ^ 31" and k: "k < length (workers p)"
      have "count_inv p"
        unfolding assms using n
        by (intro run_pool_count ThreadPool_new_count) (simp add: ThreadPool_new_def)
      from count_inv_idle [OF this g(2) k] show "\<not> executing (workers p ! k)" .
    qed
    with g show "tasks p = [] \<and> activeTasks p = 0 \<and>
            (numThreads < 2 ^ 31 \<longrightarrow> (\<forall>k < length (workers p). \<not> executing (workers p ! k)))"
      by simp
  qed
  from 1 2 3 4 show ?thesis
    by blast
qed

text \<open>
  One worker and the tasks 10 and 20, each adding itself to a counter. The destructor
  begins while 20 is queued and 10 is about to run, finds the queue not empty, waits,
  and returns after both tasks have completed.
\<close>

theorem ThreadPool_drains_witness:
  "run_pool (\<lambda>t m. m + t) [0, 0, 0, 0, 1, 1, 1, 0] (ThreadPool_new 1 [10, 20] (0::nat)) =
     \<lparr>workers = [W_Running 10], tasks = [20], queueMutex = None, stop = False,
      activeTasks = 1, owner = O_Destroy, memory = 0, completed = []\<rparr> \<and>
   owner (run_pool (\<lambda>t m. m + t)
     [0, 0, 0, 0, 1, 1, 1, 0, 0, 0, 1, 1, 1, 1, 1, 1, 1, 1, 1, 0, 0, 0, 0, 1, 1, 0, 0]
     (ThreadPool_new 1 [10, 20] (0::nat))) = O_Returned \<and>
   mset (completed (run_pool (\<lambda>t m. m + t)
     [0, 0, 0, 0, 1, 1, 1, 0, 0, 0, 1, 1, 1, 1, 1, 1, 1, 1, 1, 0, 0, 0, 0, 1, 1, 0, 0]
     (ThreadPool_new 1 [10, 20] (0::nat)))) = mset [10, 20] \<and>
   memory (run_pool (\<lambda>t m. m + t)
     [0, 0, 0, 0, 1, 1, 1, 0, 0, 0, 1, 1, 1, 1, 1, 1, 1, 1, 1, 0, 0, 0, 0, 1, 1, 0, 0]
     (ThreadPool_new 1 [10, 20] (0::nat))) = 30"
proof -
  let ?s = "[0, 0, 0, 0, 1, 1, 1, 0, 0, 0, 1, 1, 1, 1, 1, 1, 1, 1, 1, 0, 0, 0, 0, 1, 1, 0, 0]"
  let ?p = "run_pool (\<lambda>t m. m + t) ?s (ThreadPool_new 1 [10, 20] (0::nat))"
  have begun: "run_pool (\<lambda>t m. m + t) [0, 0, 0, 0, 1, 1, 1, 0]
      (ThreadPool_new 1 [10, 20] (0::nat)) =
     \<lparr>workers = [W_Running 10], tasks = [20], queueMutex = None, stop = False,
      activeTasks = 1, owner = O_Destroy, memory = 0, completed = []\<rparr>"
    by code_simp
  have returned: "owner ?p = O_Returned"
    by code_simp
  have mem: "memory ?p = 30"
    by code_simp
  from ThreadPool_drains [OF refl, of "\<lambda>t m. m + t" ?s 1 "[10, 20]" "0::nat"] returned
  have "mset (completed ?p) = mset [10, 20]"
    by blast
  with begun returned mem show ?thesis
    by blast
qed

subsection \<open>Tasks that each update their own slot\<close>

lemma foldl_update_nth:
  assumes "distinct ds" "\<forall>d \<in> set ds. d < length m"
  shows "length (foldl (\<lambda>m t. m[t := f (m ! t)]) m ds) = length m \<and>
    (\<forall>j < length m. foldl (\<lambda>m t. m[t := f (m ! t)]) m ds ! j =
       (if j \<in> set ds then f (m ! j) else m ! j))"
  using assms
proof (induction ds arbitrary: m)
  case Nil
  then show ?case by simp
next
  case (Cons d ds)
  let ?m = "m[d := f (m ! d)]"
  from Cons.prems have "distinct ds" "\<forall>d \<in> set ds. d < length ?m"
    by simp_all
  from Cons.IH [OF this] Cons.prems show ?case
    by (auto simp: nth_list_update)
qed

lemma run_pool_memory:
  assumes "p = run_pool exec schedule (ThreadPool_new numThreads ts mem)"
  shows "memory p = foldl (\<lambda>m t. exec t m) mem (completed p)"
proof -
  have "mem_inv exec mem p"
    unfolding assms by (rule run_pool_mem) (rule ThreadPool_new_mem)
  then show ?thesis
    by (simp add: mem_inv_def)
qed

lemma fan_out_interest:
  assumes "p = run_pool (\<lambda>id accs. accs[id := f (accs ! id)]) schedule
                 (ThreadPool_new numThreads [0 ..< length accs] accs)"
    and "owner p = O_Returned"
  shows "memory p = map f accs"
proof -
  have c: "mset (completed p) = mset [0 ..< length accs]"
    using run_pool_completed [OF assms] .
  then have d: "distinct (completed p)"
    using mset_eq_imp_distinct_iff [OF c] by simp
  have s: "set (completed p) = {0 ..< length accs}"
    using mset_eq_setD [OF c] by simp
  have m: "memory p = foldl (\<lambda>m t. m[t := f (m ! t)]) accs (completed p)"
    using run_pool_memory [OF assms(1)] .
  have "\<forall>d \<in> set (completed p). d < length accs"
    using s by simp
  from foldl_update_nth [OF d this, of f] s m
  have "length (memory p) = length accs" "\<forall>j < length accs. memory p ! j = f (accs ! j)"
    by simp_all
  then show ?thesis
    by (simp add: list_eq_iff_nth_eq)
qed

section \<open>Properties of the finance server's requests\<close>

lemma Account_all_fields:
  "(a :: 'd Account)\<lparr>acc_id := x, acc_active := c, acc_balance := b\<rparr> =
   \<lparr>acc_id = x, acc_balance = b, acc_active = c\<rparr>"
  by (cases a) simp

subsection \<open>Withdraw\<close>

text \<open>
  C4. For every active account and every \<open>Withdraw\<close> request on it: if the amount is
  exactly the balance, the withdrawal succeeds and leaves the balance at 0; if the test
  \<open>balance >= amount\<close> fails, as it does when the amount is greater than the balance,
  the response has \<open>ok = false\<close> and the message \<open>Insufficient funds\<close>, and the
  accounts are unchanged. The first part is stated for a balance \<open>b\<close> with \<open>b >= b\<close>
  and \<open>b - b = 0\<close>, which every finite \<open>double\<close> satisfies.
\<close>

theorem withdraw_boundary:
  assumes "type r = WITHDRAW"
    and "0 \<le> sint (user_id r)" "sint (user_id r) < sint max_accounts"
    and "length accounts = nat (sint max_accounts)"
    and "i = nat (sint (user_id r))" "acc_active (accounts ! i)"
  shows "(amount r = acc_balance (accounts ! i) \<and>
          acc_balance (accounts ! i) \<le> acc_balance (accounts ! i) \<and>
          acc_balance (accounts ! i) - acc_balance (accounts ! i) = 0 \<longrightarrow>
          handle_request to_int growth schedule max_accounts thread_count r accounts =
            Some (\<lparr>success = True, balance = 0, resp_data = [],
                   message = ''Withdrawal successful''\<rparr>, True,
                  accounts[i := (accounts ! i)\<lparr>acc_balance := 0\<rparr>])) \<and>
         (\<not> amount r \<le> acc_balance (accounts ! i) \<longrightarrow>
          handle_request to_int growth schedule max_accounts thread_count r accounts =
            Some (\<lparr>success = False, balance = 0, resp_data = [],
                   message = ''Insufficient funds''\<rparr>, True, accounts))"
  using assms
  by (auto simp: handle_request_def Response_default_def Let_def)

text \<open>Account 7 of 8 holds 50: withdrawing 50 leaves 0, withdrawing 80 is refused.\<close>

theorem withdraw_boundary_witness:
  "handle_request (\<lambda>a. 0) (101 / 100) [] 8 4
     \<lparr>type = WITHDRAW, user_id = 7, amount = 50::real, filename = [], data = []\<rparr>
     ((replicate 8 Account_default)
        [7 := \<lparr>acc_id = 7, acc_balance = 50, acc_active = True\<rparr>]) =
   Some (\<lparr>success = True, balance = 0, resp_data = [], message = ''Withdrawal successful''\<rparr>,
     True,
     (replicate 8 Account_default)
        [7 := \<lparr>acc_id = 7, acc_balance = 0, acc_active = True\<rparr>]) \<and>
   handle_request (\<lambda>a. 0) (101 / 100) [] 8 4
     \<lparr>type = WITHDRAW, user_id = 7, amount = 80::real, filename = [], data = []\<rparr>
     ((replicate 8 Account_default)
        [7 := \<lparr>acc_id = 7, acc_balance = 50, acc_active = True\<rparr>]) =
   Some (\<lparr>success = False, balance = 0, resp_data = [], message = ''Insufficient funds''\<rparr>,
     True,
     (replicate 8 Account_default)
        [7 := \<lparr>acc_id = 7, acc_balance = 50, acc_active = True\<rparr>])"
proof -
  let ?accs = "(replicate 8 (Account_default :: real Account))
        [7 := \<lparr>acc_id = 7, acc_balance = 50, acc_active = True\<rparr>]"
  let ?r50 = "\<lparr>type = WITHDRAW, user_id = 7, amount = 50::real, filename = [], data = []\<rparr>"
  let ?r80 = "\<lparr>type = WITHDRAW, user_id = 7, amount = 80::real, filename = [], data = []\<rparr>"
  have a: "type ?r50 = WITHDRAW" "0 \<le> sint (user_id ?r50)"
    "sint (user_id ?r50) < sint (8 :: int32)" "length ?accs = nat (sint (8 :: int32))"
    "(7::nat) = nat (sint (user_id ?r50))" "acc_active (?accs ! 7)"
    by simp_all
  have b: "type ?r80 = WITHDRAW" "0 \<le> sint (user_id ?r80)"
    "sint (user_id ?r80) < sint (8 :: int32)" "length ?accs = nat (sint (8 :: int32))"
    "(7::nat) = nat (sint (user_id ?r80))" "acc_active (?accs ! 7)"
    by simp_all
  have c: "amount ?r50 = acc_balance (?accs ! 7)" "acc_balance (?accs ! 7) \<le> acc_balance (?accs ! 7)"
    "acc_balance (?accs ! 7) - acc_balance (?accs ! 7) = 0"
    "\<not> amount ?r80 \<le> acc_balance (?accs ! 7)"
    by simp_all
  show ?thesis
    using withdraw_boundary [OF a, of "\<lambda>a. 0" "101 / 100" "[]" 4]
      withdraw_boundary [OF b, of "\<lambda>a. 0" "101 / 100" "[]" 4] c
    by simp
qed

subsection \<open>Deposit\<close>

text \<open>
  C6. For every valid user id (\<open>0 <= id < max_accounts\<close>) whose account is not yet
  active, a \<open>Deposit(id, a)\<close> request creates the account and returns \<open>ok = true\<close>,
  the balance \<open>a\<close> and the message \<open>Deposit successful\<close>; on an active account
  \<open>Deposit\<close> adds the amount whatever it is and returns the new balance. The first
  part is stated for an amount \<open>a\<close> with \<open>0.0 + a = a\<close>, which every \<open>double\<close>
  but NaN satisfies.
\<close>

theorem deposit_lazy:
  assumes "type r = DEPOSIT"
    and "0 \<le> sint (user_id r)" "sint (user_id r) < sint max_accounts"
    and "length accounts = nat (sint max_accounts)"
    and "i = nat (sint (user_id r))"
  shows "(\<not> acc_active (accounts ! i) \<and> 0 + amount r = amount r \<longrightarrow>
          handle_request to_int growth schedule max_accounts thread_count r accounts =
            Some (\<lparr>success = True, balance = amount r, resp_data = [],
                   message = ''Deposit successful''\<rparr>, True,
                  accounts[i := \<lparr>acc_id = user_id r, acc_balance = amount r,
                                 acc_active = True\<rparr>])) \<and>
         (acc_active (accounts ! i) \<longrightarrow>
          handle_request to_int growth schedule max_accounts thread_count r accounts =
            Some (\<lparr>success = True, balance = acc_balance (accounts ! i) + amount r,
                   resp_data = [], message = ''Deposit successful''\<rparr>, True,
                  accounts[i := (accounts ! i)\<lparr>acc_balance :=
                                   acc_balance (accounts ! i) + amount r\<rparr>]))"
  using assms
  by (auto simp: handle_request_def Response_default_def Let_def initialize_def
      Account_all_fields)

text \<open>
  A fresh server of 8 accounts: depositing 50 for user 7 creates account 7 with balance
  50, and depositing 50 again gives 100.
\<close>

theorem deposit_lazy_witness:
  "handle_request (\<lambda>a. 0) (101 / 100) [] 8 4
     \<lparr>type = DEPOSIT, user_id = 7, amount = 50::real, filename = [], data = []\<rparr>
     (replicate 8 Account_default) =
   Some (\<lparr>success = True, balance = 50, resp_data = [], message = ''Deposit successful''\<rparr>,
         True,
         (replicate 8 Account_default)
           [7 := \<lparr>acc_id = 7, acc_balance = 50, acc_active = True\<rparr>]) \<and>
   handle_request (\<lambda>a. 0) (101 / 100) [] 8 4
     \<lparr>type = DEPOSIT, user_id = 7, amount = 50::real, filename = [], data = []\<rparr>
     ((replicate 8 Account_default)
        [7 := \<lparr>acc_id = 7, acc_balance = 50, acc_active = True\<rparr>]) =
   Some (\<lparr>success = True, balance = 100, resp_data = [], message = ''Deposit successful''\<rparr>,
         True,
         (replicate 8 Account_default)
           [7 := \<lparr>acc_id = 7, acc_balance = 100, acc_active = True\<rparr>])"
proof -
  let ?r = "\<lparr>type = DEPOSIT, user_id = 7, amount = 50::real, filename = [], data = []\<rparr>"
  let ?fresh = "replicate 8 (Account_default :: real Account)"
  let ?accs = "?fresh[7 := \<lparr>acc_id = 7, acc_balance = 50, acc_active = True\<rparr>]"
  have a: "type ?r = DEPOSIT" "0 \<le> sint (user_id ?r)" "sint (user_id ?r) < sint (8 :: int32)"
    "length ?fresh = nat (sint (8 :: int32))" "(7::nat) = nat (sint (user_id ?r))"
    by simp_all
  have b: "type ?r = DEPOSIT" "0 \<le> sint (user_id ?r)" "sint (user_id ?r) < sint (8 :: int32)"
    "length ?accs = nat (sint (8 :: int32))" "(7::nat) = nat (sint (user_id ?r))"
    by simp_all
  have c: "\<not> acc_active (?fresh ! 7)" "0 + amount ?r = amount ?r" "acc_active (?accs ! 7)"
    by (simp_all add: Account_default_def)
  show ?thesis
    using deposit_lazy [OF a, of "\<lambda>a. 0" "101 / 100" "[]" 4]
      deposit_lazy [OF b, of "\<lambda>a. 0" "101 / 100" "[]" 4] c
    by simp
qed

subsection \<open>EarnInterest\<close>

text \<open>
  C5 (amended). For every \<open>EarnInterest\<close> request with a valid user id over the
  accounts of the server, the account of that user is first created (id set, balance
  0.0, active) if it was not active. Once the response is produced, every account that
  was then active with a strictly positive balance has its balance multiplied by the
  \<open>double\<close> that \<open>1.01\<close> denotes (one multiplication of \<open>double\<close>s), every other
  account is as it was then, and the response has \<open>ok = true\<close>. This holds for every
  number of workers and every interleaving of the pool's threads under which the
  pool's destructor returns.
\<close>

theorem earn_interest:
  assumes "type r = EARN_INTEREST"
    and "0 \<le> sint (user_id r)" "sint (user_id r) < sint max_accounts"
    and "length accounts = nat (sint max_accounts)"
    and "i = nat (sint (user_id r))"
    and "accounts1 =
      (if \<not> acc_active (accounts ! i)
       then accounts[i := initialize (user_id r) (accounts ! i)] else accounts)"
    and "handle_request to_int growth schedule max_accounts thread_count r accounts =
      Some (resp, go_on, accounts')"
  shows "success resp \<and> message resp = ''Interest accrual successful'' \<and> go_on \<and>
    length accounts' = length accounts \<and>
    (\<forall>j < length accounts.
       (acc_active (accounts1 ! j) \<and> 0 < acc_balance (accounts1 ! j) \<longrightarrow>
          accounts' ! j =
            (accounts1 ! j)\<lparr>acc_balance := acc_balance (accounts1 ! j) * growth\<rparr>) \<and>
       (\<not> acc_active (accounts1 ! j) \<or> \<not> 0 < acc_balance (accounts1 ! j) \<longrightarrow>
          accounts' ! j = accounts1 ! j))"
proof -
  define n where "n = size_t_of_int (if 0 < amount r then to_int (amount r) else thread_count)"
  define p where "p = run_pool (\<lambda>id accs. accs[id := applyInterest growth (accs ! id)])
      schedule (ThreadPool_new n [0 ..< length accounts1] accounts1)"
  have len: "length accounts1 = nat (sint max_accounts)"
    using assms(4,6) by simp
  have "handle_request to_int growth schedule max_accounts thread_count r accounts =
    (if owner p = O_Returned
      then Some (Response_default\<lparr>success := True,
                   message := ''Interest accrual successful''\<rparr>, True, memory p)
      else None)"
    using assms(1,2,3)
    unfolding handle_request_def Let_def p_def n_def assms(6) assms(5)
    by (simp add: assms(4))
  with assms(7) have res:
    "(if owner p = O_Returned
      then Some (Response_default\<lparr>success := True,
                   message := ''Interest accrual successful''\<rparr>, True, memory p)
      else None) = Some (resp, go_on, accounts')"
    by simp
  then have ret: "owner p = O_Returned"
    by (simp split: if_splits)
  with res have r: "resp = Response_default\<lparr>success := True,
      message := ''Interest accrual successful''\<rparr>" "go_on" "accounts' = memory p"
    by simp_all
  from fan_out_interest [OF p_def ret] r(3)
  have "accounts' = map (applyInterest growth) accounts1"
    by simp
  with r(1,2) len assms(4) show ?thesis
    by (simp add: applyInterest_def)
qed

text \<open>
  Three accounts, one worker (the request asks for one), the tasks run one after the
  other: the balance 100 becomes 101, the balance 0 and the inactive account stay.
\<close>

theorem earn_interest_witness:
  "handle_request (\<lambda>a. 1) (101 / 100)
     (replicate 7 0 @ replicate 18 1 @ [0, 0, 0, 1, 1, 0, 0]) 3 4
     \<lparr>type = EARN_INTEREST, user_id = 0, amount = 1::real, filename = [], data = []\<rparr>
     [\<lparr>acc_id = 0, acc_balance = 100, acc_active = True\<rparr>,
      \<lparr>acc_id = 1, acc_balance = 0, acc_active = True\<rparr>, Account_default] =
   Some (\<lparr>success = True, balance = 0, resp_data = [],
          message = ''Interest accrual successful''\<rparr>, True,
     [\<lparr>acc_id = 0, acc_balance = 101, acc_active = True\<rparr>,
      \<lparr>acc_id = 1, acc_balance = 0, acc_active = True\<rparr>, Account_default]) \<and>
   success \<lparr>success = True, balance = 0::real, resp_data = [],
          message = ''Interest accrual successful''\<rparr>"
proof -
  let ?r = "\<lparr>type = EARN_INTEREST, user_id = 0, amount = 1::real, filename = [], data = []\<rparr>"
  let ?accs = "[\<lparr>acc_id = 0, acc_balance = 100::real, acc_active = True\<rparr>,
      \<lparr>acc_id = 1, acc_balance = 0, acc_active = True\<rparr>, Account_default]"
  let ?resp = "\<lparr>success = True, balance = 0::real, resp_data = [],
          message = ''Interest accrual successful''\<rparr>"
  let ?accs' = "[\<lparr>acc_id = 0, acc_balance = 101::real, acc_active = True\<rparr>,
      \<lparr>acc_id = 1, acc_balance = 0, acc_active = True\<rparr>, Account_default]"
  have run: "handle_request (\<lambda>a. 1) (101 / 100)
     (replicate 7 0 @ replicate 18 1 @ [0, 0, 0, 1, 1, 0, 0]) 3 4 ?r ?accs =
     Some (?resp, True, ?accs')"
    by code_simp
  have a: "type ?r = EARN_INTEREST" "0 \<le> sint (user_id ?r)"
    "sint (user_id ?r) < sint (3 :: int32)" "length ?accs = nat (sint (3 :: int32))"
    "(0::nat) = nat (sint (user_id ?r))"
    "?accs = (if \<not> acc_active (?accs ! 0)
       then ?accs[0 := initialize (user_id ?r) (?accs ! 0)] else ?accs)"
    by simp_all
  from earn_interest [OF a run] have "success ?resp"
    by blast
  with run show ?thesis
    by blast
qed

text \<open>
  The claim as stated fails in two ways. A request whose user id is not below
  \<open>max_accounts\<close> is answered with \<open>ok = false\<close> and applies no interest. And an
  account that is not active is not always left untouched: that of the requesting user
  (here user 2) is created before the interest is applied.
\<close>

theorem earn_interest_counterexample:
  "handle_request (\<lambda>a. 1) (101 / 100) [] 3 4
     \<lparr>type = EARN_INTEREST, user_id = 9, amount = 1::real, filename = [], data = []\<rparr>
     [\<lparr>acc_id = 0, acc_balance = 100, acc_active = True\<rparr>,
      \<lparr>acc_id = 1, acc_balance = 0, acc_active = True\<rparr>, Account_default] =
   Some (\<lparr>success = False, balance = 0, resp_data = [], message = ''Invalid account ID''\<rparr>,
     True,
     [\<lparr>acc_id = 0, acc_balance = 100, acc_active = True\<rparr>,
      \<lparr>acc_id = 1, acc_balance = 0, acc_active = True\<rparr>, Account_default]) \<and>
   handle_request (\<lambda>a. 1) (101 / 100)
     (replicate 7 0 @ replicate 18 1 @ [0, 0, 0, 1, 1, 0, 0]) 3 4
     \<lparr>type = EARN_INTEREST, user_id = 2, amount = 1::real, filename = [], data = []\<rparr>
     [\<lparr>acc_id = 0, acc_balance = 100, acc_active = True\<rparr>,
      \<lparr>acc_id = 1, acc_balance = 0, acc_active = True\<rparr>,
      \<lparr>acc_id = - 1, acc_balance = 0, acc_active = False\<rparr>] =
   Some (\<lparr>success = True, balance = 0, resp_data = [],
          message = ''Interest accrual successful''\<rparr>, True,
     [\<lparr>acc_id = 0, acc_balance = 101, acc_active = True\<rparr>,
      \<lparr>acc_id = 1, acc_balance = 0, acc_active = True\<rparr>,
      \<lparr>acc_id = 2, acc_balance = 0, acc_active = True\<rparr>])"
  by (intro conjI; code_simp)

section \<open>Properties of the retry loop\<close>

lemma invocations_append [simp]: "invocations (xs @ ys) = invocations xs @ invocations ys"
  by (induction xs rule: invocations.induct) simp_all

lemma quiet_after_append:
  "quiet_after P (xs @ ys) \<longleftrightarrow>
     quiet_after P xs \<and> quiet_after P ys \<and> ((\<exists>e \<in> set xs. P e) \<longrightarrow> invocations ys = [])"
  by (induction xs) auto

lemma since_last_later:
  "invocations ys \<noteq> [] \<Longrightarrow> since_last_invocation (xs @ ys) = since_last_invocation ys"
  by (induction xs) simp_all

lemma since_last_here:
  "invocations ys = [] \<Longrightarrow> since_last_invocation (xs @ Invoked r # ys) = ys"
  by (induction xs) simp_all

text \<open>The shapes one turn of the loop can take.\<close>

lemma retry_body_cases:
  assumes "retry_body operation operation_name max_retries retries s = (evs, c, s')"
    and "pre = (if 0 < sint retries
      then [Said (retrying operation_name retries max_retries)] else [])"
  shows "(\<exists>e. evs = pre @ [Invoked (Inl e)] \<and> c = Throw e) \<or>
    (evs = pre @ [Invoked (Inr True)] \<and> c = Next True retries) \<or>
    (evs = pre @ [Invoked (Inr False), Observed True] \<and> c = Next False retries \<and>
       shutdown_requested s') \<or>
    (\<exists>a. evs = pre @ [Invoked (Inr False), Observed False,
         Said ''Operation failed. Retry? (y/n): '', Asked a, Said ''Operation canceled.''] \<and>
       c = Break \<and> sint (retries + 1) < sint max_retries) \<or>
    (\<exists>a. evs = pre @ [Invoked (Inr False), Observed False,
         Said ''Operation failed. Retry? (y/n): '', Asked a] \<and>
       c = Next False (retries + 1) \<and> sint (retries + 1) < sint max_retries) \<or>
    (evs = pre @ [Invoked (Inr False), Observed False,
         Said ''Maximum retry attempts reached.''] \<and>
       c = Next False (retries + 1) \<and> \<not> sint (retries + 1) < sint max_retries \<and>
       cout s' \<noteq> [] \<and> last (cout s') = ''Maximum retry attempts reached.'')"
proof -
  let ?s1 = "if 0 < sint retries
    then say (retrying operation_name retries max_retries) s else s"
  obtain r s2 where op: "operation ?s1 = (r, s2)"
    by (cases "operation ?s1")
  show ?thesis
  proof (cases r)
    case (Inl e)
    with assms op show ?thesis
      by (auto simp: retry_body_def Let_def)
  next
    case (Inr b)
    show ?thesis
    proof (cases b)
      case True
      with assms op Inr show ?thesis
        by (auto simp: retry_body_def Let_def)
    next
      case False
      obtain sd s3 where ob: "observe_shutdown s2 = (sd, s3)"
        by (cases "observe_shutdown s2")
      show ?thesis
      proof (cases sd)
        case True
        with assms op Inr False ob observed_set [of s2 s3] show ?thesis
          by (auto simp: retry_body_def Let_def)
      next
        case nsd: False
        show ?thesis
        proof (cases "sint (retries + 1) < sint max_retries")
          case True
          with assms op Inr False ob nsd show ?thesis
            by (auto simp: retry_body_def Let_def split: prod.splits if_splits)
        next
          case nlt: False
          with assms op Inr False ob nsd show ?thesis
            by (auto simp: retry_body_def Let_def say_def)
        qed
      qed
    qed
  qed
qed

lemma retry_body_one:
  assumes "retry_body operation operation_name max_retries retries s = (evs, c, s')"
  shows "length (invocations evs) = 1"
  using retry_body_cases [OF assms refl] by auto

lemma retry_loop_exit:
  "succeeded \<or> \<not> sint retries < sint max_retries \<Longrightarrow>
   retry_loop operation operation_name max_retries succeeded retries s = ([], None, s)"
  by (subst retry_loop.simps) auto

lemma retry_loop_induct [case_names exit shutdown throw break "next"]:
  assumes exit: "\<And>succeeded retries s.
      succeeded \<or> \<not> sint retries < sint max_retries \<Longrightarrow> P succeeded retries s ([], None, s)"
    and shutdown: "\<And>retries s s1.
      sint retries < sint max_retries \<Longrightarrow> observe_shutdown s = (True, s1) \<Longrightarrow>
      P False retries s ([Observed True], None, s1)"
    and throw: "\<And>retries s s1 evs e s2.
      sint retries < sint max_retries \<Longrightarrow> observe_shutdown s = (False, s1) \<Longrightarrow>
      retry_body operation operation_name max_retries retries s1 = (evs, Throw e, s2) \<Longrightarrow>
      P False retries s (Observed False # evs, Some e, s2)"
    and break: "\<And>retries s s1 evs s2.
      sint retries < sint max_retries \<Longrightarrow> observe_shutdown s = (False, s1) \<Longrightarrow>
      retry_body operation operation_name max_retries retries s1 = (evs, Break, s2) \<Longrightarrow>
      P False retries s (Observed False # evs, None, s2)"
    and "next": "\<And>retries s s1 evs succeeded' retries' s2.
      sint retries < sint max_retries \<Longrightarrow> observe_shutdown s = (False, s1) \<Longrightarrow>
      retry_body operation operation_name max_retries retries s1 =
        (evs, Next succeeded' retries', s2) \<Longrightarrow>
      P succeeded' retries' s2
        (retry_loop operation operation_name max_retries succeeded' retries' s2) \<Longrightarrow>
      P False retries s
        (after (Observed False # evs)
           (retry_loop operation operation_name max_retries succeeded' retries' s2))"
  shows "P succeeded retries s
    (retry_loop operation operation_name max_retries succeeded retries s)"
  using assms
proof (induction operation operation_name max_retries succeeded retries s
    rule: retry_loop.induct)
  case (1 operation operation_name max_retries succeeded retries s)
  note exit = "1.prems"(1) and shutdown = "1.prems"(2) and throw = "1.prems"(3)
    and break = "1.prems"(4) and continue = "1.prems"(5)
  show ?case
  proof (cases "\<not> succeeded \<and> sint retries < sint max_retries")
    case False
    then have c: "succeeded \<or> \<not> sint retries < sint max_retries"
      by blast
    from exit [OF c, of s] show ?thesis
      by (simp only: retry_loop_exit [OF c])
  next
    case True
    obtain sd s1 where ob: "observe_shutdown s = (sd, s1)"
      by (cases "observe_shutdown s")
    show ?thesis
    proof (cases sd)
      case sd: True
      with True ob shutdown [of retries s s1] show ?thesis
        by (subst retry_loop.simps) simp
    next
      case nsd: False
      obtain evs c s2 where body:
        "retry_body operation operation_name max_retries retries s1 = (evs, c, s2)"
        by (cases "retry_body operation operation_name max_retries retries s1") auto
      show ?thesis
      proof (cases c)
        case (Throw e)
        with True ob nsd body throw [of retries s s1 evs e s2] show ?thesis
          by (subst retry_loop.simps) simp
      next
        case Break
        with True ob nsd body break [of retries s s1 evs s2] show ?thesis
          by (subst retry_loop.simps) simp
      next
        case (Next succeeded' retries')
        have "P succeeded' retries' s2
          (retry_loop operation operation_name max_retries succeeded' retries' s2)"
        proof -
          from nsd have sdF: "sd = False"
            by simp
          show ?thesis
            by (rule "1.IH" [OF True ob [symmetric] sdF body [symmetric] refl Next "1.prems"])
        qed
        with True ob nsd body Next
          continue [of retries s s1 evs succeeded' retries' s2] show ?thesis
          by (subst retry_loop.simps) simp
      qed
    qed
  qed
qed

lemma after_fst [simp]: "fst (after evs res) = evs @ fst res"
  by (cases res) (simp add: after_def)

lemma after_snd [simp]: "snd (snd (after evs res)) = snd (snd res)"
  by (cases res) (simp add: after_def)

lemma retry_loop_bound:
  "int (length (invocations
      (fst (retry_loop operation operation_name max_retries succeeded retries s)))) \<le>
   (if succeeded \<or> shutdown_requested s then 0 else max 0 (sint max_retries - sint retries))"
proof (rule retry_loop_induct [where operation = operation and operation_name = operation_name
      and max_retries = max_retries and
      P = "\<lambda>succeeded retries s res. int (length (invocations (fst res))) \<le>
        (if succeeded \<or> shutdown_requested s then 0
         else max 0 (sint max_retries - sint retries))"], goal_cases exit shutdown throw break continue)
  case (exit succeeded retries s)
  then show ?case by simp
next
  case (shutdown retries s s1)
  then show ?case by simp
next
  case (throw retries s s1 evs e s2)
  from retry_body_one [OF throw(3)] throw(1) observed_clear [OF throw(2)] show ?case
    by simp
next
  case (break retries s s1 evs s2)
  from retry_body_one [OF break(3)] break(1) observed_clear [OF break(2)] show ?case
    by simp
next
  case (continue retries s s1 evs succeeded' retries' s2)
  from retry_body_progress [OF continue(3) continue(1)] continue(4)
    retry_body_one [OF continue(3)] continue(1) observed_clear [OF continue(2)]
  show ?case
    by (auto split: if_splits)
qed

lemma retry_loop_success:
  "quiet_after (\<lambda>e. e = Invoked (Inr True))
     (fst (retry_loop operation operation_name max_retries succeeded retries s)) \<and>
   (succeeded \<longrightarrow> fst (retry_loop operation operation_name max_retries succeeded retries s) = [])"
proof (rule retry_loop_induct [where operation = operation and operation_name = operation_name
      and max_retries = max_retries and
      P = "\<lambda>succeeded retries s res.
        quiet_after (\<lambda>e. e = Invoked (Inr True)) (fst res) \<and> (succeeded \<longrightarrow> fst res = [])"],
    goal_cases exit shutdown throw break continue)
  case (exit succeeded retries s)
  then show ?case by simp
next
  case (shutdown retries s s1)
  then show ?case by simp
next
  case (throw retries s s1 evs e s2)
  from retry_body_cases [OF throw(3) refl] show ?case
    by (auto simp: quiet_after_append)
next
  case (break retries s s1 evs s2)
  from retry_body_cases [OF break(3) refl] show ?case
    by (auto simp: quiet_after_append)
next
  case (continue retries s s1 evs succeeded' retries' s2)
  from retry_body_cases [OF continue(3) refl] continue(4) show ?case
    by (auto simp: quiet_after_append)
qed

lemma retry_loop_shutdown:
  "quiet_after (\<lambda>e. e = Observed True)
     (fst (retry_loop operation operation_name max_retries succeeded retries s)) \<and>
   (shutdown_requested s \<longrightarrow>
      invocations (fst (retry_loop operation operation_name max_retries succeeded retries s)) = [])"
proof (rule retry_loop_induct [where operation = operation and operation_name = operation_name
      and max_retries = max_retries and
      P = "\<lambda>succeeded retries s res.
        quiet_after (\<lambda>e. e = Observed True) (fst res) \<and>
        (shutdown_requested s \<longrightarrow> invocations (fst res) = [])"],
    goal_cases exit shutdown throw break continue)
  case (exit succeeded retries s)
  then show ?case by simp
next
  case (shutdown retries s s1)
  then show ?case by simp
next
  case (throw retries s s1 evs e s2)
  from retry_body_cases [OF throw(3) refl] observed_clear [OF throw(2)] show ?case
    by (auto simp: quiet_after_append)
next
  case (break retries s s1 evs s2)
  from retry_body_cases [OF break(3) refl] observed_clear [OF break(2)] show ?case
    by (auto simp: quiet_after_append)
next
  case (continue retries s s1 evs succeeded' retries' s2)
  from retry_body_cases [OF continue(3) refl] continue(4) observed_clear [OF continue(2)] show ?case
    by (auto simp: quiet_after_append)
qed

lemma retry_loop_exhausted:
  "\<not> succeeded \<and> sint retries < sint max_retries \<and>
   int (length (invocations
     (fst (retry_loop operation operation_name max_retries succeeded retries s)))) =
     sint max_retries - sint retries \<and>
   last (invocations
     (fst (retry_loop operation operation_name max_retries succeeded retries s))) = Inr False \<and>
   (\<exists>rest. since_last_invocation
     (fst (retry_loop operation operation_name max_retries succeeded retries s)) =
     Observed False # rest) \<longrightarrow>
   since_last_invocation
     (fst (retry_loop operation operation_name max_retries succeeded retries s)) =
     [Observed False, Said ''Maximum retry attempts reached.''] \<and>
   cout (snd (snd (retry_loop operation operation_name max_retries succeeded retries s))) \<noteq> [] \<and>
   last (cout (snd (snd (retry_loop operation operation_name max_retries succeeded retries s)))) =
     ''Maximum retry attempts reached.''"
proof (rule retry_loop_induct [where operation = operation and operation_name = operation_name
      and max_retries = max_retries and
      P = "\<lambda>succeeded retries s res.
        \<not> succeeded \<and> sint retries < sint max_retries \<and>
        int (length (invocations (fst res))) = sint max_retries - sint retries \<and>
        last (invocations (fst res)) = Inr False \<and>
        (\<exists>rest. since_last_invocation (fst res) = Observed False # rest) \<longrightarrow>
        since_last_invocation (fst res) =
          [Observed False, Said ''Maximum retry attempts reached.''] \<and>
        cout (snd (snd res)) \<noteq> [] \<and>
        last (cout (snd (snd res))) = ''Maximum retry attempts reached.''"],
    goal_cases exit shutdown throw break continue)
  case (exit succeeded retries s)
  then show ?case by auto
next
  case (shutdown retries s s1)
  then show ?case by simp
next
  case (throw retries s s1 evs e s2)
  from retry_body_cases [OF throw(3) refl] show ?case
    by auto
next
  case (break retries s s1 evs s2)
  from retry_body_cases [OF break(3) refl] sint_succ_below [OF break(1)] show ?case
    by (auto split: if_splits)
next
  case (continue retries s s1 evs succeeded' retries' s2)
  let ?rec = "retry_loop operation operation_name max_retries succeeded' retries' s2"
  let ?pre = "if 0 < sint retries
      then [Said (retrying operation_name retries max_retries)] else []"
  note succ = sint_succ_below [OF continue(1)]
  have pre0: "invocations ?pre = []"
    by simp
  from retry_body_cases [OF continue(3) refl]
  consider
    (won) "evs = ?pre @ [Invoked (Inr True)]" "succeeded'"
    | (stopped) "evs = ?pre @ [Invoked (Inr False), Observed True]" "\<not> succeeded'"
        "retries' = retries" "shutdown_requested s2"
    | (again) a where "evs = ?pre @ [Invoked (Inr False), Observed False,
         Said ''Operation failed. Retry? (y/n): '', Asked a]" "\<not> succeeded'"
        "retries' = retries + 1" "sint (retries + 1) < sint max_retries"
    | (spent) "evs = ?pre @ [Invoked (Inr False), Observed False,
         Said ''Maximum retry attempts reached.'']" "\<not> succeeded'"
        "retries' = retries + 1" "\<not> sint (retries + 1) < sint max_retries"
        "cout s2 \<noteq> []" "last (cout s2) = ''Maximum retry attempts reached.''"
    by auto
  then show ?case
  proof cases
    case won
    then have "?rec = ([], None, s2)"
      by (simp add: retry_loop_exit)
    with won show ?thesis
      by simp
  next
    case stopped
    with retry_loop_shutdown [of operation operation_name max_retries succeeded' retries' s2]
    have quiet: "invocations (fst ?rec) = []"
      by simp
    have "since_last_invocation ((Observed False # evs) @ fst ?rec) = Observed True # fst ?rec"
      using quiet stopped(1) since_last_here [of "Observed True # fst ?rec" "Observed False # ?pre" "Inr False"]
      by simp
    then show ?thesis
      by simp
  next
    case again
    show ?thesis
    proof (intro impI, elim conjE exE)
      fix rest
      assume len: "int (length (invocations (fst (after (Observed False # evs) ?rec)))) =
          sint max_retries - sint retries"
        and lst: "last (invocations (fst (after (Observed False # evs) ?rec))) = Inr False"
        and obs: "since_last_invocation (fst (after (Observed False # evs) ?rec)) =
          Observed False # rest"
      from len again succ pre0 have len': "int (length (invocations (fst ?rec))) =
          sint max_retries - sint retries'"
        by simp
      with again succ have ne: "invocations (fst ?rec) \<noteq> []"
        by auto
      then have sl: "since_last_invocation (fst (after (Observed False # evs) ?rec)) =
          since_last_invocation (fst ?rec)"
        using since_last_later [of "fst ?rec" "Observed False # evs"] by simp
      from ne lst again pre0 have lst': "last (invocations (fst ?rec)) = Inr False"
        by simp
      from obs sl have obs': "since_last_invocation (fst ?rec) = Observed False # rest"
        by (simp only:)
      from continue(4) again len' lst' obs'
      have "since_last_invocation (fst ?rec) =
          [Observed False, Said ''Maximum retry attempts reached.''] \<and>
        cout (snd (snd ?rec)) \<noteq> [] \<and>
        last (cout (snd (snd ?rec))) = ''Maximum retry attempts reached.''"
        by blast
      moreover have "snd (snd (after (Observed False # evs) ?rec)) = snd (snd ?rec)"
        by simp
      ultimately show "since_last_invocation (fst (after (Observed False # evs) ?rec)) =
          [Observed False, Said ''Maximum retry attempts reached.''] \<and>
        cout (snd (snd (after (Observed False # evs) ?rec))) \<noteq> [] \<and>
        last (cout (snd (snd (after (Observed False # evs) ?rec)))) =
          ''Maximum retry attempts reached.''"
        by (simp only: sl, simp)
    qed
  next
    case spent
    then have "?rec = ([], None, s2)"
      by (simp add: retry_loop_exit)
    with spent
      since_last_here [of "[Observed False, Said ''Maximum retry attempts reached.'']"
        "Observed False # ?pre" "Inr False"]
    show ?thesis
      by simp
  qed
qed

text \<open>
  C8. For every operation closure and maximum retry count \<open>N\<close>, in the record of what
  \<open>retry_operation\<close> did: the operation is called at most \<open>N\<close> times; no call
  follows a call that returned success; no call follows a look at
  \<open>shutdown_requested\<close> that found it set, and none is made at all when it is set on
  entry; and when the \<open>N\<close>-th call has been made and failed and the look at the flag
  after it found it clear, nothing follows but the message
  \<open>Maximum retry attempts reached.\<close>, which is then the last text on \<open>cout\<close>.
\<close>

theorem retry_operation_attempts:
  assumes "retry_operation operation_name operation max_retries s = (evs, exc, s')"
  shows "length (invocations evs) \<le> nat (sint max_retries) \<and>
    quiet_after (\<lambda>e. e = Invoked (Inr True)) evs \<and>
    quiet_after (\<lambda>e. e = Observed True) evs \<and>
    (shutdown_requested s \<longrightarrow> invocations evs = []) \<and>
    (0 < sint max_retries \<and> length (invocations evs) = nat (sint max_retries) \<and>
     last (invocations evs) = Inr False \<and>
     (\<exists>rest. since_last_invocation evs = Observed False # rest) \<longrightarrow>
       since_last_invocation evs =
         [Observed False, Said ''Maximum retry attempts reached.''] \<and>
       cout s' \<noteq> [] \<and> last (cout s') = ''Maximum retry attempts reached.'')"
proof -
  let ?res = "retry_loop operation operation_name max_retries False 0 s"
  from assms have res: "?res = (evs, exc, s')"
    by (simp add: retry_operation_def)
  from retry_loop_bound [of operation operation_name max_retries False 0 s] res
  have 1: "length (invocations evs) \<le> nat (sint max_retries)"
    by (simp split: if_splits)
  from retry_loop_success [of operation operation_name max_retries False 0 s] res
  have 2: "quiet_after (\<lambda>e. e = Invoked (Inr True)) evs"
    by simp
  from retry_loop_shutdown [of operation operation_name max_retries False 0 s] res
  have 3: "quiet_after (\<lambda>e. e = Observed True) evs"
    and 4: "shutdown_requested s \<longrightarrow> invocations evs = []"
    by simp_all
  from retry_loop_exhausted [of False 0 max_retries operation operation_name s] res
  have 5: "0 < sint max_retries \<and> length (invocations evs) = nat (sint max_retries) \<and>
     last (invocations evs) = Inr False \<and>
     (\<exists>rest. since_last_invocation evs = Observed False # rest) \<longrightarrow>
       since_last_invocation evs =
         [Observed False, Said ''Maximum retry attempts reached.''] \<and>
       cout s' \<noteq> [] \<and> last (cout s') = ''Maximum retry attempts reached.''"
    by auto
  from 1 2 3 4 5 show ?thesis
    by blast
qed

text \<open>
  An operation that always fails, two attempts allowed, the user asking for the second:
  two calls, then the message.
\<close>

theorem retry_operation_attempts_witness:
  "fst (retry_operation ''deposit'' (\<lambda>s. (Inr False, s)) 2 quiet_client) =
     [Observed False, Invoked (Inr False), Observed False,
      Said ''Operation failed. Retry? (y/n): '', Asked CHR ''y'', Observed False,
      Said ''Retrying deposit (attempt 2 of 2)...'', Invoked (Inr False), Observed False,
      Said ''Maximum retry attempts reached.''] \<and>
   since_last_invocation (fst (retry_operation ''deposit'' (\<lambda>s. (Inr False, s)) 2 quiet_client)) =
     [Observed False, Said ''Maximum retry attempts reached.''] \<and>
   last (cout (snd (snd (retry_operation ''deposit'' (\<lambda>s. (Inr False, s)) 2 quiet_client)))) =
     ''Maximum retry attempts reached.''"
proof -
  let ?res = "retry_operation ''deposit'' (\<lambda>s. (Inr False, s)) 2 quiet_client"
  have evs: "fst ?res =
     [Observed False, Invoked (Inr False), Observed False,
      Said ''Operation failed. Retry? (y/n): '', Asked CHR ''y'', Observed False,
      Said ''Retrying deposit (attempt 2 of 2)...'', Invoked (Inr False), Observed False,
      Said ''Maximum retry attempts reached.'']"
    by code_simp
  have res: "?res = (fst ?res, fst (snd ?res), snd (snd ?res))"
    by simp
  have h: "0 < sint (2 :: int32)" "length (invocations (fst ?res)) = nat (sint (2 :: int32))"
    "last (invocations (fst ?res)) = Inr False"
    "\<exists>rest. since_last_invocation (fst ?res) = Observed False # rest"
    unfolding evs by simp_all
  from retry_operation_attempts [OF res] h
  have "since_last_invocation (fst ?res) =
      [Observed False, Said ''Maximum retry attempts reached.''] \<and>
    last (cout (snd (snd ?res))) = ''Maximum retry attempts reached.''"
    by blast
  with evs show ?thesis
    by blast
qed

section \<open>Properties of the client\<close>

lemma untouched_say [simp]: "untouched w k (say text s) = untouched w k s"
  by (simp add: untouched_def say_def)

lemma untouched_log [simp]: "untouched w k (log_signal_event msg s) = untouched w k s"
  by (simp add: untouched_def log_signal_event_def)

lemma untouched_block [simp]: "untouched w k (block_signals s) = untouched w k s"
  by (simp add: untouched_def block_signals_def log_signal_event_def)

lemma untouched_unblock [simp]: "untouched w k (unblock_signals s) = untouched w k s"
  by (simp add: untouched_def unblock_signals_def log_signal_event_def)

lemma untouched_input [simp]: "untouched w k (snd (next_input s)) = untouched w k s"
  by (simp add: untouched_def next_input_def)

lemma untouched_observe [simp]: "untouched w k (snd (observe_shutdown s)) = untouched w k s"
  by (simp add: untouched_def observe_shutdown_def sigint_handler_def log_signal_event_def
      Let_def split: list.splits)

lemma untouched_menu [simp]: "untouched w k (print_menu s) = untouched w k s"
  by (simp add: untouched_def print_menu_def)

lemma untouched_status [simp]: "untouched w k (print_server_status s) = untouched w k s"
  by (simp add: untouched_def print_server_status_def)

lemma untouched_user [simp]: "untouched w k (s\<lparr>current_user := u\<rparr>) = untouched w k s"
  by (simp add: untouched_def)

lemma untouched_running [simp]: "untouched w k (s\<lparr>running := b\<rparr>) = untouched w k s"
  by (simp add: untouched_def)

lemma offline_operations:
  assumes "untouched w k s"
  shows "login_operation io s = (Inr False, say ''Not connected to logging server!'' s)"
    and "deposit_operation io amt s = (Inr False, say ''Not connected to finance server!'' s)"
    and "withdraw_operation io amt s = (Inr False, say ''Not connected to finance server!'' s)"
    and "balance_operation io s = (Inr False, say ''Not connected to finance server!'' s)"
    and "upload_operation io fname content s =
      (Inr False, say ''Not connected to file server!'' s)"
    and "download_operation io fname s = (Inr False, say ''Not connected to file server!'' s)"
    and "interest_operation io numThreads s =
      (Inr False, say ''Not connected to finance server!'' s)"
    and "logout_operation io s =
      (Inr True, say ''Logged out locally''
         ((say ''Not connected to logging server!'' s)\<lparr>current_user := - 1\<rparr>))"
  using assms
  by (simp_all add: untouched_def login_operation_def deposit_operation_def
      withdraw_operation_def balance_operation_def upload_operation_def
      download_operation_def interest_operation_def logout_operation_def)

lemma retry_body_untouched:
  assumes op: "keeps w k operation"
    and st: "untouched w k st"
  shows "untouched w k (snd (snd (retry_body operation operation_name max_retries retries st)))"
proof -
  let ?s1 = "if 0 < sint retries
    then say (retrying operation_name retries max_retries) st else st"
  have 1: "untouched w k ?s1"
    using st by simp
  obtain r s2 where o: "operation ?s1 = (r, s2)"
    by (cases "operation ?s1")
  with op 1 have 2: "untouched w k s2"
    by (auto simp: keeps_def)
  obtain sd s3 where ob: "observe_shutdown s2 = (sd, s3)"
    by (cases "observe_shutdown s2")
  with 2 untouched_observe [of w k s2] have 3: "untouched w k s3"
    by simp
  obtain a s4 where ni: "next_input (say ''Operation failed. Retry? (y/n): '' s3) = (a, s4)"
    by (cases "next_input (say ''Operation failed. Retry? (y/n): '' s3)")
  with 3 untouched_input [of w k "say ''Operation failed. Retry? (y/n): '' s3"]
  have 4: "untouched w k s4"
    by simp
  from o ob ni 2 3 4 show ?thesis
    by (cases r; cases sd) (auto simp: retry_body_def Let_def split: bool.splits)
qed

lemma retry_loop_untouched:
  assumes op: "keeps w k operation"
  shows "untouched w k st \<longrightarrow>
    untouched w k
      (snd (snd (retry_loop operation operation_name max_retries succeeded retries st)))"
proof (rule retry_loop_induct [where operation = operation and operation_name = operation_name
      and max_retries = max_retries and
      P = "\<lambda>succeeded retries s res. untouched w k s \<longrightarrow> untouched w k (snd (snd res))"],
    goal_cases exit shutdown throw break continue)
  case (exit succeeded retries s)
  then show ?case by simp
next
  case (shutdown retries s s1)
  with untouched_observe [of w k s] show ?case by simp
next
  case (throw retries s s1 evs e s2)
  with untouched_observe [of w k s]
    retry_body_untouched [OF op, of s1 operation_name max_retries retries]
  show ?case by simp
next
  case (break retries s s1 evs s2)
  with untouched_observe [of w k s]
    retry_body_untouched [OF op, of s1 operation_name max_retries retries]
  show ?case by simp
next
  case (continue retries s s1 evs succeeded' retries' s2)
  with untouched_observe [of w k s]
    retry_body_untouched [OF op, of s1 operation_name max_retries retries]
  show ?case by simp
qed

lemma transaction_untouched:
  assumes op: "keeps w k operation"
    and st: "untouched w k st"
  shows "untouched w k (snd (transaction operation_name operation max_retries st))"
proof -
  let ?res = "retry_loop operation operation_name max_retries False 0 (block_signals st)"
  from retry_loop_untouched [OF op, of "block_signals st" operation_name max_retries False 0] st
  have "untouched w k (snd (snd ?res))"
    by simp
  then show ?thesis
    by (cases ?res; cases "fst (snd ?res)")
      (auto simp: transaction_def retry_operation_def)
qed

lemma operations_keep:
  "keeps w k (login_operation io)"
  "keeps w k (deposit_operation io amt)"
  "keeps w k (withdraw_operation io amt)"
  "keeps w k (balance_operation io)"
  "keeps w k (upload_operation io fname content)"
  "keeps w k (download_operation io fname)"
  "keeps w k (interest_operation io numThreads)"
  "keeps w k (logout_operation io)"
  unfolding keeps_def by (simp_all add: offline_operations)

lemma untouched_input_pair:
  "next_input s = (inp, s') \<Longrightarrow> untouched w k s' = untouched w k s"
  using untouched_input [of w k s] by simp

lemma untouched_observe_pair:
  "observe_shutdown s = (sd, s') \<Longrightarrow> untouched w k s' = untouched w k s"
  using untouched_observe [of w k s] by simp

lemma menu_choice_untouched:
  assumes "untouched w k st"
  shows "untouched w k (snd (menu_choice io max_retries choice st))"
proof -
  have t: "untouched w k (snd (transaction operation_name operation max_retries s1))"
    if "keeps w k operation" "untouched w k s1" for operation_name operation
      and s1 :: "'a client"
    using that by (rule transaction_untouched)
  have i: "untouched w k (snd (next_input (say msg st)))" for msg
    using assms by simp
  consider "choice = 0" | "choice = 1" | "choice = 2" | "choice = 3" | "choice = 4"
    | "choice = 5" | "choice = 6" | "choice = 7" | "choice = 8" | "choice = 9"
    | "choice \<noteq> 0" "choice \<noteq> 1" "choice \<noteq> 2" "choice \<noteq> 3" "choice \<noteq> 4" "choice \<noteq> 5"
      "choice \<noteq> 6" "choice \<noteq> 7" "choice \<noteq> 8" "choice \<noteq> 9"
    by blast
  then show ?thesis
  proof cases
    case 1
    with assms show ?thesis
      by (simp add: menu_choice_def)
  next
    case 2
    with assms i show ?thesis
      by (auto simp: menu_choice_def operations_keep untouched_input_pair split: prod.splits int_read.splits
          option.splits intro!: t)
  next
    case 3
    with assms i show ?thesis
      by (auto simp: menu_choice_def operations_keep untouched_input_pair split: prod.splits intro!: t)
  next
    case 4
    with assms i show ?thesis
      by (auto simp: menu_choice_def operations_keep untouched_input_pair split: prod.splits intro!: t)
  next
    case 5
    with assms i show ?thesis
      by (auto simp: menu_choice_def operations_keep untouched_input_pair intro!: t)
  next
    case 6
    with assms i show ?thesis
      by (auto simp: menu_choice_def operations_keep untouched_input_pair split: prod.splits option.splits
          intro!: t)
  next
    case 7
    with assms i show ?thesis
      by (auto simp: menu_choice_def operations_keep untouched_input_pair split: prod.splits intro!: t)
  next
    case 8
    with assms i show ?thesis
      by (auto simp: menu_choice_def operations_keep untouched_input_pair intro!: t)
  next
    case 9
    with assms show ?thesis
      by (simp add: menu_choice_def)
  next
    case 10
    with assms i show ?thesis
      by (auto simp: menu_choice_def operations_keep untouched_input_pair split: prod.splits intro!: t)
  next
    case 11
    with assms show ?thesis
      by (simp add: menu_choice_def)
  qed
qed

lemma menu_turn_untouched:
  assumes "untouched w k st"
  shows "untouched w k (snd (menu_turn io max_retries st))"
proof -
  obtain inp s1 where ni: "next_input (print_menu st) = (inp, s1)"
    by (cases "next_input (print_menu st)")
  with assms have 1: "untouched w k s1"
    by (simp add: untouched_input_pair)
  obtain sd s2 where ob: "observe_shutdown s1 = (sd, s2)"
    by (cases "observe_shutdown s1")
  with 1 have 2: "untouched w k s2"
    by (simp add: untouched_observe_pair)
  from menu_choice_untouched [OF 2] have 3:
    "untouched w k (snd (menu_choice io max_retries choice s2))" for choice
    .
  show ?thesis
  proof (cases "as_int inp")
    case (Failed v)
    with ni ob 2 show ?thesis
      by (cases sd) (simp_all add: menu_turn_def)
  next
    case (Read choice)
    obtain exc s3 where mc: "menu_choice io max_retries choice s2 = (exc, s3)"
      by (cases "menu_choice io max_retries choice s2")
    with 3 [of choice] have "untouched w k s3"
      by simp
    with Read ni ob 2 mc show ?thesis
      by (cases sd; cases exc) (simp_all add: menu_turn_def)
  qed
qed

lemma main_loop_untouched:
  "untouched w k st \<Longrightarrow> main_loop io max_retries fuel st = (visited, final) \<Longrightarrow>
   (\<forall>v \<in> set visited. untouched w k v) \<and> (\<forall>s'. final = Some s' \<longrightarrow> untouched w k s')"
proof (induction fuel arbitrary: st visited final)
  case 0
  then show ?case by auto
next
  case (Suc fuel)
  show ?case
  proof (cases "running st")
    case False
    with Suc.prems show ?thesis by auto
  next
    case True
    obtain sd s1 where ob: "observe_shutdown st = (sd, s1)"
      by (cases "observe_shutdown st")
    with Suc.prems(1) have 1: "untouched w k s1"
      by (simp add: untouched_observe_pair)
    show ?thesis
    proof (cases sd)
      case sd: True
      with True ob Suc.prems 1 show ?thesis by auto
    next
      case nsd: False
      obtain br s2 where mt: "menu_turn io max_retries s1 = (br, s2)"
        by (cases "menu_turn io max_retries s1")
      with menu_turn_untouched [OF 1, of io max_retries] have 2: "untouched w k s2"
        by simp
      show ?thesis
      proof (cases br)
        case br: True
        with True ob nsd mt Suc.prems 2 show ?thesis by auto
      next
        case nbr: False
        obtain vs fin where ml: "main_loop io max_retries fuel s2 = (vs, fin)"
          by (cases "main_loop io max_retries fuel s2")
        from Suc.IH [OF 2 ml] True ob nsd mt nbr ml Suc.prems show ?thesis
          by auto
      qed
    qed
  qed
qed

lemma startup_untouched:
  "untouched (wire s) (net_pos s)
     (startup finance_host finance_port logging_host logging_port file_host file_port s)"
  by (simp add: startup_def Let_def untouched_def say_def log_signal_event_def)

lemma startup_cout:
  "cout (startup finance_host finance_port logging_host logging_port file_host file_port s) =
   cout s @
   [''Connecting to servers...'',
    ''Connected to finance server at '' @ finance_host @ '':'' @ print_int (sint finance_port),
    ''Connected to logging server at '' @ logging_host @ '':'' @ print_int (sint logging_port),
    ''Connected to file server at '' @ file_host @ '':'' @ print_int (sint file_port)]"
  by (simp add: startup_def Let_def say_def log_signal_event_def)

lemma shutdown_untouched:
  assumes "untouched w k st"
  shows "untouched w k (shutdown io st)"
proof -
  obtain sd s1 where ob: "observe_shutdown st = (sd, s1)"
    by (cases "observe_shutdown st")
  with assms have 1: "untouched w k s1"
    by (simp add: untouched_observe_pair)
  have q: "send_quit io None server s = s" for server and s :: "'a client"
    by (simp add: send_quit_def)
  from 1 have c: "finance_channel s1 = None" "logging_channel s1 = None" "file_channel s1 = None"
    by (simp_all add: untouched_def)
  from 1 ob c show ?thesis
    by (cases sd) (simp_all add: shutdown_def Let_def q say_def log_signal_event_def untouched_def)
qed

text \<open>
  C9. In every run of the interactive client the three channel pointers are null at
  every pass of the loop test and at the end, and nothing goes to the network: no
  request of the menu and no \<open>QUIT\<close> at exit. The connection blocks at the start
  only print that the client is connected. With null pointers every operation of the
  menu that needs a server prints its \<open>Not connected\<close> message and fails without
  touching the network; logging out, which needs none, prints the message and logs out
  locally.
\<close>

theorem client_stays_offline:
  "(main io finance_host finance_port logging_host logging_port file_host file_port max_retries
      fuel s = (visited, final) \<longrightarrow>
      (\<forall>v \<in> set visited. untouched (wire s) (net_pos s) v) \<and>
      (\<forall>s'. final = Some s' \<longrightarrow> untouched (wire s) (net_pos s) s')) \<and>
   cout (startup finance_host finance_port logging_host logging_port file_host file_port s) =
     cout s @
     [''Connecting to servers...'',
      ''Connected to finance server at '' @ finance_host @ '':''
        @ print_int (sint finance_port),
      ''Connected to logging server at '' @ logging_host @ '':''
        @ print_int (sint logging_port),
      ''Connected to file server at '' @ file_host @ '':'' @ print_int (sint file_port)] \<and>
   (untouched w k st \<longrightarrow>
      login_operation io st = (Inr False, say ''Not connected to logging server!'' st) \<and>
      deposit_operation io amt st = (Inr False, say ''Not connected to finance server!'' st) \<and>
      withdraw_operation io amt st = (Inr False, say ''Not connected to finance server!'' st) \<and>
      balance_operation io st = (Inr False, say ''Not connected to finance server!'' st) \<and>
      upload_operation io fname content st =
        (Inr False, say ''Not connected to file server!'' st) \<and>
      download_operation io fname st = (Inr False, say ''Not connected to file server!'' st) \<and>
      interest_operation io numThreads st =
        (Inr False, say ''Not connected to finance server!'' st) \<and>
      logout_operation io st =
        (Inr True, say ''Logged out locally''
           ((say ''Not connected to logging server!'' st)\<lparr>current_user := - 1\<rparr>)))"
proof -
  let ?s0 = "startup finance_host finance_port logging_host logging_port file_host file_port s"
  have 1: "main io finance_host finance_port logging_host logging_port file_host file_port
      max_retries fuel s = (visited, final) \<longrightarrow>
      (\<forall>v \<in> set visited. untouched (wire s) (net_pos s) v) \<and>
      (\<forall>s'. final = Some s' \<longrightarrow> untouched (wire s) (net_pos s) s')"
  proof
    assume m: "main io finance_host finance_port logging_host logging_port file_host file_port
      max_retries fuel s = (visited, final)"
    obtain vs fin where ml: "main_loop io max_retries fuel ?s0 = (vs, fin)"
      by (cases "main_loop io max_retries fuel ?s0")
    from main_loop_untouched [OF startup_untouched ml]
    have vs: "\<forall>v \<in> set vs. untouched (wire s) (net_pos s) v"
      and fin: "\<forall>s'. fin = Some s' \<longrightarrow> untouched (wire s) (net_pos s) s'"
      by simp_all
    from m ml have v: "visited = vs"
      by (cases fin) (simp_all add: main_def)
    from m ml have f: "final = map_option (shutdown io) fin"
      by (cases fin) (auto simp: main_def)
    from fin f shutdown_untouched [of "wire s" "net_pos s" _ io]
    have "\<forall>s'. final = Some s' \<longrightarrow> untouched (wire s) (net_pos s) s'"
      by (cases fin) auto
    with vs v show "(\<forall>v \<in> set visited. untouched (wire s) (net_pos s) v) \<and>
      (\<forall>s'. final = Some s' \<longrightarrow> untouched (wire s) (net_pos s) s')"
      by simp
  qed
  from 1 startup_cout [of finance_host finance_port logging_host logging_port file_host
      file_port s]
    offline_operations [of w k st]
  show ?thesis
    by simp
qed

text \<open>
  A session with one attempt allowed: login as 5, deposit of 50, exit. Both operations
  find no server, nothing is sent, and the user stays logged in locally.
\<close>

theorem client_stays_offline_witness:
  "map_option cout
     (snd (main plain_io ''localhost'' 8000 ''localhost'' 8002 ''localhost'' 8001 1 4
        scripted_client)) =
   Some
    [''Connecting to servers...'', ''Connected to finance server at localhost:8000'',
     ''Connected to logging server at localhost:8002'',
     ''Connected to file server at localhost:8001'',
     ''=== Networked Banking System Menu ==='', ''1. Login'', ''2. Deposit'',
     ''3. Withdraw'', ''4. View Balance'', ''5. Upload File'', ''6. Download File'',
     ''7. Logout'', ''8. Server Status'', ''9. Update Interest for All Accounts'',
     ''0. Exit'', ''Enter choice: '', ''Enter user ID: '',
     ''Not connected to logging server!'', ''Maximum retry attempts reached.'',
     ''=== Networked Banking System Menu ==='', ''1. Login'', ''2. Deposit'',
     ''3. Withdraw'', ''4. View Balance'', ''5. Upload File'', ''6. Download File'',
     ''7. Logout'', ''8. Server Status'', ''9. Update Interest for All Accounts'',
     ''0. Exit'', ''Enter choice: '', ''Enter amount to deposit: '',
     ''Not connected to finance server!'', ''Maximum retry attempts reached.'',
     ''=== Networked Banking System Menu ==='', ''1. Login'', ''2. Deposit'',
     ''3. Withdraw'', ''4. View Balance'', ''5. Upload File'', ''6. Download File'',
     ''7. Logout'', ''8. Server Status'', ''9. Update Interest for All Accounts'',
     ''0. Exit'', ''Enter choice: '', ''Exiting normally...'',
     ''Sending shutdown signals to connected servers...'', ''Shutdown complete.''] \<and>
   map_option wire
     (snd (main plain_io ''localhost'' 8000 ''localhost'' 8002 ''localhost'' 8001 1 4
        scripted_client)) = Some [] \<and>
   map_option current_user
     (snd (main plain_io ''localhost'' 8000 ''localhost'' 8002 ''localhost'' 8001 1 4
        scripted_client)) = Some 5"
proof -
  let ?run = "main plain_io ''localhost'' 8000 ''localhost'' 8002 ''localhost'' 8001 1 4
        scripted_client"
  have out: "map_option cout (snd ?run) =
   Some
    [''Connecting to servers...'', ''Connected to finance server at localhost:8000'',
     ''Connected to logging server at localhost:8002'',
     ''Connected to file server at localhost:8001'',
     ''=== Networked Banking System Menu ==='', ''1. Login'', ''2. Deposit'',
     ''3. Withdraw'', ''4. View Balance'', ''5. Upload File'', ''6. Download File'',
     ''7. Logout'', ''8. Server Status'', ''9. Update Interest for All Accounts'',
     ''0. Exit'', ''Enter choice: '', ''Enter user ID: '',
     ''Not connected to logging server!'', ''Maximum retry attempts reached.'',
     ''=== Networked Banking System Menu ==='', ''1. Login'', ''2. Deposit'',
     ''3. Withdraw'', ''4. View Balance'', ''5. Upload File'', ''6. Download File'',
     ''7. Logout'', ''8. Server Status'', ''9. Update Interest for All Accounts'',
     ''0. Exit'', ''Enter choice: '', ''Enter amount to deposit: '',
     ''Not connected to finance server!'', ''Maximum retry attempts reached.'',
     ''=== Networked Banking System Menu ==='', ''1. Login'', ''2. Deposit'',
     ''3. Withdraw'', ''4. View Balance'', ''5. Upload File'', ''6. Download File'',
     ''7. Logout'', ''8. Server Status'', ''9. Update Interest for All Accounts'',
     ''0. Exit'', ''Enter choice: '', ''Exiting normally...'',
     ''Sending shutdown signals to connected servers...'', ''Shutdown complete.'']"
    by code_simp
  have user: "map_option current_user (snd ?run) = Some 5"
    by code_simp
  from out obtain s' where fin: "snd ?run = Some s'"
    by (cases "snd ?run") auto
  have run: "?run = (fst ?run, snd ?run)"
    by simp
  have start: "wire scripted_client = []" "net_pos scripted_client = 0"
    by (simp_all add: scripted_client_def quiet_client_def)
  from client_stays_offline [of plain_io "''localhost''" 8000 "''localhost''" 8002
      "''localhost''" 8001 1 4 scripted_client "fst ?run" "snd ?run"] run fin start
  have "untouched [] 0 s'"
    by simp
  with fin have "map_option wire (snd ?run) = Some []"
    by (simp add: untouched_def)
  with out user show ?thesis
    by blast
qed


end
